theory Spec2Isabelle
  imports Complex_Main "HOL-Library.Word" "HOL-Library.Multiset"
begin

section \<open>Configuration constants (CNN1.py, lines 27--32)\<close>

definition INPUT_SHAPE :: "nat list" where
  "INPUT_SHAPE = [28, 28, 1]"

definition NUM_CLASSES :: nat where
  "NUM_CLASSES = 10"

definition BATCH_SIZE :: nat where
  "BATCH_SIZE = 128"

definition MAX_EPOCHS :: nat where
  "MAX_EPOCHS = 50"

definition DROPOUT_RATE :: real where
  "DROPOUT_RATE = 15 / 100"

definition MODEL_H5_PATH :: string where
  "MODEL_H5_PATH = ''mnist_cnn.h5''"

section \<open>Label encoding\<close>

text \<open>
  \<^verbatim>\<open>tf.one_hot(label, NUM_CLASSES)\<close>: a vector of \<open>depth\<close> entries, \<open>1\<close> at the index equal
  to the label and \<open>0\<close> elsewhere. A label outside \<open>0..depth-1\<close> gives the all-zero vector
  (the framework does not raise).
\<close>

definition tf_one_hot :: "int \<Rightarrow> nat \<Rightarrow> real list" where
  "tf_one_hot label depth = map (\<lambda>i. if int i = label then 1 else 0) [0..<depth]"

section \<open>Batching\<close>

text \<open>
  \<^verbatim>\<open>Dataset.batch(batch_size)\<close> with the default \<open>drop_remainder=False\<close>: consecutive
  elements are grouped, \<open>batch_size\<close> at a time; the last group holds what is left. The
  framework rejects a batch size of 0 when the dataset is built, and the program only
  passes \<open>BATCH_SIZE\<close>; this definition yields no batch for it.
\<close>

function batch :: "nat \<Rightarrow> 'a list \<Rightarrow> 'a list list" where
  "batch n xs =
     (if n = 0 \<or> xs = [] then [] else take n xs # batch n (drop n xs))"
  by pat_completeness auto
termination
  by (relation "measure (\<lambda>(n, xs). length xs)") auto

declare batch.simps [simp del]

section \<open>Tensors and the framework primitives of the per-sample transform\<close>

text \<open>
  A tensor is its shape and its elements in row-major order. The dataset's images are
  \<^verbatim>\<open>uint8\<close> tensors; the transform computes in \<^verbatim>\<open>float32\<close>. In this section and
  the next the arithmetic is idealised as exact real arithmetic, which is what the shapes,
  the labels and the error outcomes of the transform need; the section after them gives
  the same operations with every result rounded to binary32.
\<close>

record 'a tensor =
  shape :: "nat list"
  elems :: "'a list"

definition wf_tensor :: "'a tensor \<Rightarrow> bool" where
  "wf_tensor t \<longleftrightarrow> length (elems t) = prod_list (shape t)"

datatype tf_error = InvalidArgumentError

text \<open>\<^verbatim>\<open>tf.cast(image, tf.float32)\<close> on a \<^verbatim>\<open>uint8\<close> tensor.\<close>

definition tf_cast_float32 :: "8 word tensor \<Rightarrow> real tensor" where
  "tf_cast_float32 t = \<lparr>shape = shape t, elems = map (\<lambda>p. real (unat p)) (elems t)\<rparr>"

text \<open>A tensor divided by, or added to, a Python scalar: elementwise.\<close>

definition tf_divide_scalar :: "real tensor \<Rightarrow> real \<Rightarrow> real tensor" where
  "tf_divide_scalar t c = \<lparr>shape = shape t, elems = map (\<lambda>v. v / c) (elems t)\<rparr>"

definition tf_add_scalar :: "real tensor \<Rightarrow> real \<Rightarrow> real tensor" where
  "tf_add_scalar t c = \<lparr>shape = shape t, elems = map (\<lambda>v. v + c) (elems t)\<rparr>"

definition tf_sqrt :: "real tensor \<Rightarrow> real tensor" where
  "tf_sqrt t = \<lparr>shape = shape t, elems = map sqrt (elems t)\<rparr>"

text \<open>
  \<^verbatim>\<open>tf.nn.moments(x, axes=[0, ..., k-1])\<close>: mean and (population) variance over the leading
  \<open>k\<close> axes, \<open>keepdims=False\<close>. An axis beyond the rank of \<open>x\<close> is rejected. With
  \<open>n\<close> the product of the reduced dimensions and \<open>r\<close> the product of the remaining ones,
  the element at position \<open>j\<close> of the result reduces the elements \<open>j, r + j, 2r + j, ...\<close>
  of \<open>x\<close>; the variance is the mean of the squared differences from the mean.
  (When \<open>n = 0\<close> the framework's quotient is not a number; \<open>x\<close> then has no element.)
\<close>

definition reduced_column :: "nat \<Rightarrow> nat \<Rightarrow> real list \<Rightarrow> nat \<Rightarrow> real list" where
  "reduced_column n r xs j = map (\<lambda>i. xs ! (i * r + j)) [0..<n]"

definition tf_nn_moments :: "real tensor \<Rightarrow> nat \<Rightarrow> tf_error + (real tensor \<times> real tensor)" where
  "tf_nn_moments x k =
     (if length (shape x) < k then Inl InvalidArgumentError
      else
        let n = prod_list (take k (shape x));
            rest = drop k (shape x);
            r = prod_list rest;
            mean = map (\<lambda>j. sum_list (reduced_column n r (elems x) j) / real n) [0..<r];
            var = map (\<lambda>j. sum_list (map (\<lambda>v. (v - mean ! j)\<^sup>2)
                                  (reduced_column n r (elems x) j)) / real n) [0..<r]
        in Inr (\<lparr>shape = rest, elems = mean\<rparr>, \<lparr>shape = rest, elems = var\<rparr>))"

text \<open>
  A binary operator between a tensor \<open>x\<close> and a tensor \<open>y\<close> whose shape is a suffix of the
  shape of \<open>x\<close> (here: the moments against the image they were computed from).
  Broadcasting aligns the trailing axes, so \<open>y\<close> repeats along the leading axes of \<open>x\<close>.
\<close>

definition tf_broadcast :: "(real \<Rightarrow> real \<Rightarrow> real) \<Rightarrow> real tensor \<Rightarrow> real tensor \<Rightarrow> real tensor" where
  "tf_broadcast f x y =
     \<lparr>shape = shape x,
      elems = map (\<lambda>i. f (elems x ! i) (elems y ! (i mod length (elems y))))
                [0..<length (elems x)]\<rparr>"

text \<open>\<^verbatim>\<open>tf.expand_dims(x, -1)\<close>: one more axis of size 1, last.\<close>

definition tf_expand_dims_last :: "'a tensor \<Rightarrow> 'a tensor" where
  "tf_expand_dims_last t = \<lparr>shape = shape t @ [1], elems = elems t\<rparr>"

section \<open>The per-sample transform (CNN1.py, lines 35--41)\<close>

definition normalize_img :: "8 word tensor \<Rightarrow> int \<Rightarrow> tf_error + (real tensor \<times> real list)" where
  "normalize_img img label =
     (let image1 = tf_divide_scalar (tf_cast_float32 img) 255 in
      case tf_nn_moments image1 3 of
        Inl e \<Rightarrow> Inl e
      | Inr (mean, var) \<Rightarrow>
          let std = tf_sqrt var;
              image2 = tf_broadcast (/) (tf_broadcast (-) image1 mean)
                         (tf_add_scalar std (1 / 10 ^ 6))
          in Inr (tf_expand_dims_last image2, tf_one_hot label NUM_CLASSES))"

text \<open>
  The denominators of the division of line 40, one for each position of the moments:
  \<^verbatim>\<open>std + 1e-6\<close> with \<^verbatim>\<open>std = tf.sqrt(var)\<close>.
\<close>

definition std_denominators :: "8 word tensor \<Rightarrow> tf_error + real list" where
  "std_denominators img =
     (case tf_nn_moments (tf_divide_scalar (tf_cast_float32 img) 255) 3 of
        Inl e \<Rightarrow> Inl e
      | Inr (mean, var) \<Rightarrow> Inr (elems (tf_add_scalar (tf_sqrt var) (1 / 10 ^ 6))))"

section \<open>The per-sample transform in binary32 arithmetic\<close>

text \<open>
  A binary32 number is modelled by the real number it stands for, and every operation of
  lines 37--40 returns the binary32 number nearest to its exact result, ties to the even
  significand (IEEE 754, the framework's arithmetic). For \<open>2\<^sup>e \<le> \<bar>x\<bar> < 2\<^bsup>e+1\<^esup>\<close> the binary32
  numbers around \<open>x\<close> are the multiples of \<open>2\<^bsup>e-23\<^esup>\<close>; below \<open>2\<^bsup>-126\<^esup>\<close> they are the
  multiples of \<open>2\<^bsup>-149\<^esup>\<close>. Overflow is not modelled: no quantity of the transform comes
  near \<open>2\<^bsup>128\<^esup>\<close>.
\<close>

definition pow2 :: "int \<Rightarrow> real" where
  "pow2 e = (if 0 \<le> e then 2 ^ nat e else 1 / 2 ^ nat (- e))"

definition round_half_even :: "real \<Rightarrow> int" where
  "round_half_even x =
     (let f = \<lfloor>x\<rfloor> in
      if x - of_int f < 1 / 2 then f
      else if 1 / 2 < x - of_int f then f + 1
      else if even f then f else f + 1)"

definition f32_round :: "real \<Rightarrow> real" where
  "f32_round x =
     (if x = 0 then 0
      else
        let e = max \<lfloor>log 2 \<bar>x\<bar>\<rfloor> (- 126)
        in of_int (round_half_even (x * pow2 (23 - e))) * pow2 (e - 23))"

definition f32_add :: "real \<Rightarrow> real \<Rightarrow> real" where
  "f32_add a b = f32_round (a + b)"

definition f32_sub :: "real \<Rightarrow> real \<Rightarrow> real" where
  "f32_sub a b = f32_round (a - b)"

definition f32_mul :: "real \<Rightarrow> real \<Rightarrow> real" where
  "f32_mul a b = f32_round (a * b)"

definition f32_div :: "real \<Rightarrow> real \<Rightarrow> real" where
  "f32_div a b = f32_round (a / b)"

definition f32_sqrt :: "real \<Rightarrow> real" where
  "f32_sqrt a = f32_round (sqrt a)"

text \<open>
  A reduction adds the elements of a list in an order that the framework chooses, and
  with rounding the sum depends on that order. A \<open>sum_order\<close> is one way of adding:
  \<open>Elem i\<close> is the element at position \<open>i\<close>, \<open>Add l r\<close> the rounded sum of two partial
  sums. It \<open>sums_all\<close> of \<open>n\<close> elements when each position below \<open>n\<close> occurs in it exactly
  once. The sum of no element is 0.
\<close>

datatype sum_order = Elem nat | Add sum_order sum_order

fun addends :: "sum_order \<Rightarrow> nat list" where
  "addends (Elem i) = [i]"
| "addends (Add l r) = addends l @ addends r"

definition sums_all :: "sum_order \<Rightarrow> nat \<Rightarrow> bool" where
  "sums_all p n \<longleftrightarrow> sort (addends p) = [0..<n]"

fun f32_reduce :: "sum_order \<Rightarrow> real list \<Rightarrow> real" where
  "f32_reduce (Elem i) xs = xs ! i"
| "f32_reduce (Add l r) xs = f32_add (f32_reduce l xs) (f32_reduce r xs)"

definition f32_sum :: "sum_order \<Rightarrow> real list \<Rightarrow> real" where
  "f32_sum p xs = (if xs = [] then 0 else f32_reduce p xs)"

text \<open>
  The operations of the transform on \<^verbatim>\<open>float32\<close> tensors. The Python scalars \<^verbatim>\<open>255.0\<close> and
  \<^verbatim>\<open>1e-6\<close> become \<^verbatim>\<open>float32\<close> constants. \<^verbatim>\<open>tf.nn.moments\<close> is the mean (a sum divided by
  the number of elements) and the mean of the squared differences from it; \<open>pm\<close> is the
  order of the sum of the mean and \<open>pv\<close> the order of the sum of the variance. (As above,
  the moments of a tensor with no element are not numbers in the framework.)
\<close>

definition tf_divide_scalar_f32 :: "real tensor \<Rightarrow> real \<Rightarrow> real tensor" where
  "tf_divide_scalar_f32 t c =
     \<lparr>shape = shape t, elems = map (\<lambda>v. f32_div v (f32_round c)) (elems t)\<rparr>"

definition tf_add_scalar_f32 :: "real tensor \<Rightarrow> real \<Rightarrow> real tensor" where
  "tf_add_scalar_f32 t c =
     \<lparr>shape = shape t, elems = map (\<lambda>v. f32_add v (f32_round c)) (elems t)\<rparr>"

definition tf_sqrt_f32 :: "real tensor \<Rightarrow> real tensor" where
  "tf_sqrt_f32 t = \<lparr>shape = shape t, elems = map f32_sqrt (elems t)\<rparr>"

definition tf_nn_moments_f32 ::
  "sum_order \<Rightarrow> sum_order \<Rightarrow> real tensor \<Rightarrow> nat \<Rightarrow> tf_error + (real tensor \<times> real tensor)" where
  "tf_nn_moments_f32 pm pv x k =
     (if length (shape x) < k then Inl InvalidArgumentError
      else
        let n = prod_list (take k (shape x));
            rest = drop k (shape x);
            r = prod_list rest;
            mean = map (\<lambda>j. f32_div (f32_sum pm (reduced_column n r (elems x) j))
                                (f32_round (real n))) [0..<r];
            var = map (\<lambda>j. f32_div
                             (f32_sum pv (map (\<lambda>v. f32_mul (f32_sub v (mean ! j))
                                                          (f32_sub v (mean ! j)))
                                            (reduced_column n r (elems x) j)))
                             (f32_round (real n))) [0..<r]
        in Inr (\<lparr>shape = rest, elems = mean\<rparr>, \<lparr>shape = rest, elems = var\<rparr>))"

definition normalize_img_f32 ::
  "sum_order \<Rightarrow> sum_order \<Rightarrow> 8 word tensor \<Rightarrow> int \<Rightarrow> tf_error + (real tensor \<times> real list)" where
  "normalize_img_f32 pm pv img label =
     (let image1 = tf_divide_scalar_f32 (tf_cast_float32 img) 255 in
      case tf_nn_moments_f32 pm pv image1 3 of
        Inl e \<Rightarrow> Inl e
      | Inr (mean, var) \<Rightarrow>
          let std = tf_sqrt_f32 var;
              image2 = tf_broadcast f32_div (tf_broadcast f32_sub image1 mean)
                         (tf_add_scalar_f32 std (1 / 10 ^ 6))
          in Inr (tf_expand_dims_last image2, tf_one_hot label NUM_CLASSES))"

section \<open>The dataset pipelines (CNN1.py, lines 44--62)\<close>

text \<open>
  A \<^verbatim>\<open>tf.data\<close> dataset is the sequence of its elements together with the chain of
  transformations it was built by and its \<^verbatim>\<open>deterministic\<close> option.
  \<^verbatim>\<open>tf.data.AUTOTUNE\<close> is the constant \<open>-1\<close>: the framework chooses the parallelism or
  the buffer size itself, at run time.
\<close>

definition AUTOTUNE :: int where
  "AUTOTUNE = - 1"

datatype ds_op =
    DsMap int       \<comment> \<open>\<^verbatim>\<open>map(f, num_parallel_calls=...)\<close>\<close>
  | DsCache         \<comment> \<open>\<^verbatim>\<open>cache()\<close>, no file name: in memory\<close>
  | DsShuffle nat   \<comment> \<open>\<^verbatim>\<open>shuffle(buffer_size)\<close>\<close>
  | DsBatch nat     \<comment> \<open>\<^verbatim>\<open>batch(batch_size)\<close>\<close>
  | DsPrefetch int  \<comment> \<open>\<^verbatim>\<open>prefetch(buffer_size)\<close>\<close>

record 'a dataset =
  items :: "'a list"
  ops :: "ds_op list"
  deterministic :: bool

text \<open>
  \<^verbatim>\<open>tfds.load(..., shuffle_files=...)\<close> on one split: the samples as the loader reads
  them. With \<^verbatim>\<open>shuffle_files=True\<close> (and no seed) the loader turns the
  \<^verbatim>\<open>deterministic\<close> option of the dataset it returns off.
\<close>

definition tfds_load :: "'a list \<Rightarrow> bool \<Rightarrow> 'a dataset" where
  "tfds_load split shuffle_files = \<lparr>items = split, ops = [], deterministic = \<not> shuffle_files\<rparr>"

text \<open>
  The results of parallel calls on a dataset that is not deterministic are emitted as
  the calls complete: of the first \<open>workers\<close> pending elements (the calls in flight) any
  one may be next. Which one is an argument (reduced modulo the number in flight); when
  each time it is the oldest, the order is kept.
\<close>

function parallel_emit :: "nat \<Rightarrow> nat list \<Rightarrow> 'a list \<Rightarrow> 'a list" where
  "parallel_emit workers completion pending =
     (if pending = [] \<or> workers = 0 then pending
      else
        let i = (case completion of [] \<Rightarrow> 0
                 | c # _ \<Rightarrow> c mod (min workers (length pending)))
        in pending ! i
           # parallel_emit workers (tl completion) (take i pending @ drop (Suc i) pending))"
  by pat_completeness auto
termination
proof (relation "measure (\<lambda>(workers, completion, pending). length pending)")
  fix workers :: nat and completion :: "nat list" and pending :: "'a list" and i
  assume ne: "\<not> (pending = [] \<or> workers = 0)"
    and i: "i = (case completion of [] \<Rightarrow> 0 | c # _ \<Rightarrow> c mod (min workers (length pending)))"
  have "i < length pending"
  proof (cases completion)
    case Nil
    with i ne show ?thesis by simp
  next
    case (Cons c cs)
    from ne have "c mod (min workers (length pending)) < min workers (length pending)"
      by (intro mod_less_divisor) simp
    with i Cons show ?thesis by simp
  qed
  then show "((workers, tl completion, take i pending @ drop (Suc i) pending),
              workers, completion, pending)
        \<in> measure (\<lambda>(workers, completion, pending). length pending)"
    by simp
qed simp

declare parallel_emit.simps [simp del]

text \<open>
  \<^verbatim>\<open>map(f, num_parallel_calls=...)\<close>: on a deterministic dataset the results come in the
  order of the elements; otherwise as the parallel calls complete. \<^verbatim>\<open>cache\<close> and
  \<^verbatim>\<open>prefetch\<close> do not change the elements.
\<close>

definition ds_map ::
  "('a \<Rightarrow> 'b) \<Rightarrow> int \<Rightarrow> nat \<Rightarrow> nat list \<Rightarrow> 'a dataset \<Rightarrow> 'b dataset" where
  "ds_map f num_parallel_calls workers completion d =
     \<lparr>items = (if deterministic d then map f (items d)
               else parallel_emit workers completion (map f (items d))),
      ops = ops d @ [DsMap num_parallel_calls],
      deterministic = deterministic d\<rparr>"

definition ds_cache :: "'a dataset \<Rightarrow> 'a dataset" where
  "ds_cache d = \<lparr>items = items d, ops = ops d @ [DsCache], deterministic = deterministic d\<rparr>"

definition ds_prefetch :: "int \<Rightarrow> 'a dataset \<Rightarrow> 'a dataset" where
  "ds_prefetch buffer_size d =
     \<lparr>items = items d, ops = ops d @ [DsPrefetch buffer_size],
      deterministic = deterministic d\<rparr>"

definition ds_batch :: "nat \<Rightarrow> 'a dataset \<Rightarrow> 'a list dataset" where
  "ds_batch batch_size d =
     \<lparr>items = batch batch_size (items d), ops = ops d @ [DsBatch batch_size],
      deterministic = deterministic d\<rparr>"

text \<open>
  \<^verbatim>\<open>shuffle(buffer_size)\<close>: a buffer holds the next \<open>buffer_size\<close> elements; each step
  emits one element of the buffer, chosen at random, and puts the next input element in
  its place. The random choices are an argument (each is reduced modulo the number of
  elements in the buffer).
\<close>

function shuffle_buffer :: "nat list \<Rightarrow> 'a list \<Rightarrow> 'a list \<Rightarrow> 'a list" where
  "shuffle_buffer choices buf input =
     (if buf = [] then []
      else
        let i = (case choices of [] \<Rightarrow> 0 | c # _ \<Rightarrow> c mod length buf) in
        if input = [] then buf ! i # shuffle_buffer (tl choices) (take i buf @ drop (Suc i) buf) []
        else buf ! i # shuffle_buffer (tl choices) (buf[i := hd input]) (tl input))"
  by pat_completeness auto
termination
proof (relation "measure (\<lambda>(choices, buf, input). length buf + length input)")
  fix choices :: "nat list" and buf input :: "'a list" and i
  assume ne: "buf \<noteq> []" and i: "i = (case choices of [] \<Rightarrow> 0 | c # _ \<Rightarrow> c mod length buf)"
  from ne i have "i < length buf" by (cases choices) simp_all
  then have less: "length (take i buf @ drop (Suc i) buf) < length buf" by simp
  {
    assume "input = []"
    with less show "((tl choices, take i buf @ drop (Suc i) buf, []), choices, buf, input)
        \<in> measure (\<lambda>(choices, buf, input). length buf + length input)"
      by simp
  }
  {
    assume "input \<noteq> []"
    then show "((tl choices, buf[i := hd input], tl input), choices, buf, input)
        \<in> measure (\<lambda>(choices, buf, input). length buf + length input)"
      by (cases input) simp_all
  }
qed simp

declare shuffle_buffer.simps [simp del]

definition ds_shuffle :: "nat \<Rightarrow> nat list \<Rightarrow> 'a dataset \<Rightarrow> 'a dataset" where
  "ds_shuffle buffer_size choices d =
     \<lparr>items = shuffle_buffer choices (take buffer_size (items d)) (drop buffer_size (items d)),
      ops = ops d @ [DsShuffle buffer_size],
      deterministic = deterministic d\<rparr>"

text \<open>
  What a run of the pipelines leaves to chance: the random choices of the shuffle, the
  number of parallel calls the framework runs for \<^verbatim>\<open>AUTOTUNE\<close>, and the order in which
  the parallel calls of the two maps complete.
\<close>

record pipeline_choices =
  shuffle_choices :: "nat list"
  map_workers :: nat
  train_completion :: "nat list"
  test_completion :: "nat list"

text \<open>
  \<^verbatim>\<open>load_datasets\<close>. The samples of the two splits, as sequences of (image, label) pairs
  in the order the loader reads them, are arguments, and so is what the run leaves to
  chance. An element of the mapped dataset is the outcome of the per-sample transform on
  it.
\<close>

type_synonym sample = "8 word tensor \<times> int"
type_synonym normalized_sample = "tf_error + (real tensor \<times> real list)"

definition load_datasets ::
  "sample list \<Rightarrow> sample list \<Rightarrow> pipeline_choices
     \<Rightarrow> normalized_sample list dataset \<times> normalized_sample list dataset" where
  "load_datasets raw_train raw_test choices =
     (let ds_train = tfds_load raw_train True;
          ds_test = tfds_load raw_test True;
          ds_train1 = ds_map (\<lambda>(img, label). normalize_img img label) AUTOTUNE
                        (map_workers choices) (train_completion choices) ds_train;
          ds_train2 = ds_prefetch AUTOTUNE
                        (ds_batch BATCH_SIZE
                           (ds_shuffle 1000 (shuffle_choices choices) (ds_cache ds_train1)));
          ds_test1 = ds_map (\<lambda>(img, label). normalize_img img label) AUTOTUNE
                       (map_workers choices) (test_completion choices) ds_test;
          ds_test2 = ds_prefetch AUTOTUNE (ds_cache (ds_batch BATCH_SIZE ds_test1))
      in (ds_train2, ds_test2))"

section \<open>The model (CNN1.py, lines 65--93)\<close>

datatype activation = ReLU | Softmax

datatype padding = Valid | Same

datatype initializer = HeNormal | GlorotUniform

datatype layer =
    Conv2D nat nat activation padding initializer "nat list option"
      \<comment> \<open>filters, kernel size, activation, padding, kernel initializer, input shape\<close>
  | MaxPooling2D nat
  | Dropout real
  | Flatten
  | Dense nat activation initializer

datatype optimizer = Adam real

datatype loss_function = CategoricalCrossentropy

datatype metric = Accuracy

record compiled_model =
  layers :: "layer list"
  model_optimizer :: optimizer
  model_loss :: loss_function
  model_metrics :: "metric list"

text \<open>
  The last \<^verbatim>\<open>Dense\<close> layer is given no initializer: the framework's default is
  Glorot-uniform.
\<close>

definition build_model :: compiled_model where
  "build_model =
     \<lparr>layers =
        [Conv2D 32 5 ReLU Valid HeNormal (Some INPUT_SHAPE),
         MaxPooling2D 2,
         Dropout DROPOUT_RATE,
         Conv2D 64 5 ReLU Valid HeNormal None,
         MaxPooling2D 2,
         Dropout DROPOUT_RATE,
         Flatten,
         Dense 1024 ReLU HeNormal,
         Dropout DROPOUT_RATE,
         Dense NUM_CLASSES Softmax GlorotUniform],
      model_optimizer = Adam (1 / 1000),
      model_loss = CategoricalCrossentropy,
      model_metrics = [Accuracy]\<rparr>"

text \<open>
  The shape of a layer's output for one sample (height, width, channels): a convolution
  without padding loses \<open>kernel - 1\<close> per spatial axis, a pooling layer divides the spatial
  axes by its pool size, \<^verbatim>\<open>Flatten\<close> multiplies the dimensions out.
\<close>

fun layer_output_shape :: "layer \<Rightarrow> nat list \<Rightarrow> nat list" where
  "layer_output_shape (Conv2D f k _ Valid _ _) [h, w, c] = [h + 1 - k, w + 1 - k, f]"
| "layer_output_shape (Conv2D f k _ Same _ _) [h, w, c] = [h, w, f]"
| "layer_output_shape (MaxPooling2D p) [h, w, c] = [h div p, w div p, c]"
| "layer_output_shape Flatten s = [prod_list s]"
| "layer_output_shape (Dense u _ _) s = butlast s @ [u]"
| "layer_output_shape _ s = s"

section \<open>Training with early stopping (CNN1.py, lines 128--136)\<close>

text \<open>
  The state of \<^verbatim>\<open>model.fit\<close> with the callback
  \<^verbatim>\<open>EarlyStopping(patience=5, restore_best_weights=True)\<close>: the model's weights and its
  \<^verbatim>\<open>stop_training\<close> flag, the callback's fields, and the validation losses recorded in
  the history. The callback monitors \<^verbatim>\<open>val_loss\<close> (its default) with \<open>min_delta = 0\<close>;
  \<open>best\<close> starts at infinity, which is \<open>None\<close> here.
\<close>

record 'w fit_state =
  weights :: 'w
  stop_training :: bool
  wait :: nat
  best :: "real option"
  best_weights :: "'w option"
  best_epoch :: nat
  stopped_epoch :: nat
  val_loss_history :: "real list"

definition on_train_begin :: "'w \<Rightarrow> 'w fit_state" where
  "on_train_begin w =
     \<lparr>weights = w, stop_training = False, wait = 0, best = None, best_weights = None,
      best_epoch = 0, stopped_epoch = 0, val_loss_history = []\<rparr>"

definition is_improvement :: "real \<Rightarrow> real option \<Rightarrow> bool" where
  "is_improvement current reference =
     (case reference of None \<Rightarrow> True | Some b \<Rightarrow> current - 0 < b)"

text \<open>
  \<^verbatim>\<open>EarlyStopping.on_epoch_end\<close>: the weights are remembered at the first epoch and at
  every improvement, an improvement resets the counter, and once the counter reaches the
  patience (after the first epoch) training is stopped and the remembered weights are put
  back. (When all epochs run without a stop, the weights are those of the last epoch
  here; a later version of the framework puts the remembered weights back then too. No
  property below depends on it.)
\<close>

definition on_epoch_end :: "nat \<Rightarrow> bool \<Rightarrow> nat \<Rightarrow> real \<Rightarrow> 'w fit_state \<Rightarrow> 'w fit_state" where
  "on_epoch_end patience restore_best_weights epoch current st =
     (let st1 = (if restore_best_weights \<and> best_weights st = None
                 then st\<lparr>best_weights := Some (weights st), best_epoch := epoch\<rparr> else st);
          st2 = st1\<lparr>wait := wait st1 + 1\<rparr>
      in if is_improvement current (best st2) then
           st2\<lparr>best := Some current, best_epoch := epoch,
               best_weights := (if restore_best_weights then Some (weights st2)
                                else best_weights st2),
               wait := 0\<rparr>
         else if patience \<le> wait st2 \<and> 0 < epoch then
           st2\<lparr>stopped_epoch := epoch, stop_training := True,
               weights := (if restore_best_weights
                           then (case best_weights st2 of Some w \<Rightarrow> w | None \<Rightarrow> weights st2)
                           else weights st2)\<rparr>
         else st2)"

text \<open>
  The loop of \<^verbatim>\<open>model.fit(ds_train, epochs=..., validation_data=ds_test, callbacks=[...])\<close>.
  One pass of the optimizer over the training batches (\<open>train_epoch\<close>, which may depend
  on the epoch through shuffling and dropout) and the evaluation on the test batches
  (\<open>evaluate\<close>) are arguments: the numerics of training are the framework's. An epoch
  trains, evaluates, records the validation loss and calls the callback; the loop ends
  after \<open>epochs\<close> epochs or as soon as the callback has set \<^verbatim>\<open>stop_training\<close>.
\<close>

definition run_epoch ::
  "(nat \<Rightarrow> 'w \<Rightarrow> 'w) \<Rightarrow> ('w \<Rightarrow> real) \<Rightarrow> nat \<Rightarrow> 'w fit_state \<Rightarrow> 'w fit_state" where
  "run_epoch train_epoch evaluate epoch st =
     (let w = train_epoch epoch (weights st);
          current = evaluate w
      in on_epoch_end 5 True epoch current
           (st\<lparr>weights := w, val_loss_history := val_loss_history st @ [current]\<rparr>))"

function fit_loop ::
  "(nat \<Rightarrow> 'w \<Rightarrow> 'w) \<Rightarrow> ('w \<Rightarrow> real) \<Rightarrow> nat \<Rightarrow> nat \<Rightarrow> 'w fit_state \<Rightarrow> 'w fit_state" where
  "fit_loop train_epoch evaluate epochs epoch st =
     (if epochs \<le> epoch then st
      else
        let st1 = run_epoch train_epoch evaluate epoch st
        in if stop_training st1 then st1
           else fit_loop train_epoch evaluate epochs (Suc epoch) st1)"
  by pat_completeness auto
termination
  by (relation "measure (\<lambda>(train_epoch, evaluate, epochs, epoch, st). epochs - epoch)") auto

declare fit_loop.simps [simp del]

definition fit :: "(nat \<Rightarrow> 'w \<Rightarrow> 'w) \<Rightarrow> ('w \<Rightarrow> real) \<Rightarrow> 'w \<Rightarrow> 'w fit_state" where
  "fit train_epoch evaluate w0 = fit_loop train_epoch evaluate MAX_EPOCHS 0 (on_train_begin w0)"

text \<open>The weights after the epochs \<open>0, ..., e\<close> of uninterrupted training.\<close>

fun weights_after :: "(nat \<Rightarrow> 'w \<Rightarrow> 'w) \<Rightarrow> 'w \<Rightarrow> nat \<Rightarrow> 'w" where
  "weights_after train_epoch w0 0 = train_epoch 0 w0"
| "weights_after train_epoch w0 (Suc e) = train_epoch (Suc e) (weights_after train_epoch w0 e)"

section \<open>Saving the model (CNN1.py, lines 141--150)\<close>

text \<open>
  Names in the body of \<^verbatim>\<open>main\<close> that it does not assign are looked up among the
  module's globals (its imports, constants and functions, lines 20--122) and then among
  the builtins; a name found in neither raises \<^verbatim>\<open>NameError\<close>.
\<close>

datatype py_value = Module | Function | IntVal int | FloatVal real | StrVal string | TupleVal "int list"

datatype py_error = NameError string | TypeError | AttributeError string

definition module_globals :: "(string \<times> py_value) list" where
  "module_globals =
     [(''tf'', Module), (''np'', Module), (''plt'', Module), (''tfds'', Module), (''os'', Module),
      (''INPUT_SHAPE'', TupleVal [28, 28, 1]),
      (''NUM_CLASSES'', IntVal 10),
      (''BATCH_SIZE'', IntVal 128),
      (''MAX_EPOCHS'', IntVal 50),
      (''DROPOUT_RATE'', FloatVal (15 / 100)),
      (''MODEL_H5_PATH'', StrVal ''mnist_cnn.h5''),
      (''normalize_img'', Function), (''load_datasets'', Function), (''build_model'', Function),
      (''plot_metrics'', Function), (''main'', Function)]"

text \<open>The builtins the program uses; Python has no builtin named \<^verbatim>\<open>MODEL_DIR\<close>.\<close>

definition builtins_used :: "string list" where
  "builtins_used = [''print'']"

definition load_global :: "string \<Rightarrow> py_error + py_value" where
  "load_global name =
     (case map_of module_globals name of
        Some v \<Rightarrow> Inr v
      | None \<Rightarrow> if name \<in> set builtins_used then Inr Function else Inl (NameError name))"

text \<open>
  The working directory is the list of paths created in it, in order, and the lines
  printed. Whether the model object has a method \<^verbatim>\<open>export\<close> depends on the
  framework's version and is an argument. The statements, in order: the check and creation
  of the directory (line 142--143), the two \<^verbatim>\<open>model.save\<close> calls, \<^verbatim>\<open>model.export\<close>,
  \<^verbatim>\<open>print\<close>.
\<close>

record world =
  paths :: "string list"
  stdout :: "string list"

definition main_save :: "bool \<Rightarrow> world \<Rightarrow> py_error + world" where
  "main_save model_has_export w =
     (case load_global ''os'' of
        Inl e \<Rightarrow> Inl e
      | Inr _ \<Rightarrow>
          (case load_global ''MODEL_DIR'' of
             Inl e \<Rightarrow> Inl e
           | Inr (StrVal d) \<Rightarrow>
               let w1 = (if d \<notin> set (paths w) then w\<lparr>paths := paths w @ [d]\<rparr> else w);
                   w2 = w1\<lparr>paths := paths w1 @ [''CNN1_saved_model.keras'']\<rparr>;
                   w3 = w2\<lparr>paths := paths w2 @ [''CNN1_mnist_model.h5'']\<rparr>
               in if model_has_export
                  then Inr (w3\<lparr>paths := paths w3 @ [''CNN1_saved_model''],
                               stdout := stdout w3 @ [''CNN1_saved_model.keras'']\<rparr>)
                  else Inl (AttributeError ''export'')
           | Inr _ \<Rightarrow> Inl TypeError))"

section \<open>Notions used to state the properties\<close>

text \<open>Mean and (population) variance of a list of numbers.\<close>

definition mean_of :: "real list \<Rightarrow> real" where
  "mean_of xs = sum_list xs / real (length xs)"

definition variance_of :: "real list \<Rightarrow> real" where
  "variance_of xs = mean_of (map (\<lambda>v. (v - mean_of xs)\<^sup>2) xs)"

text \<open>The pixels after line 37, and the standardization of line 40 on a list.\<close>

definition scaled_pixels :: "8 word tensor \<Rightarrow> real list" where
  "scaled_pixels img = map (\<lambda>p. real (unat p) / 255) (elems img)"

definition standardize :: "real list \<Rightarrow> real list" where
  "standardize xs = map (\<lambda>v. (v - mean_of xs) / (sqrt (variance_of xs) + 1 / 10 ^ 6)) xs"

text \<open>
  The same in binary32: mean and variance as \<^verbatim>\<open>tf.nn.moments\<close> computes them with the
  orders \<open>pm\<close> and \<open>pv\<close> of its two sums, the pixels after line 37, the denominator and
  the standardization of line 40.
\<close>

definition mean_f32 :: "sum_order \<Rightarrow> real list \<Rightarrow> real" where
  "mean_f32 p xs = f32_div (f32_sum p xs) (f32_round (real (length xs)))"

definition variance_f32 :: "sum_order \<Rightarrow> sum_order \<Rightarrow> real list \<Rightarrow> real" where
  "variance_f32 pm pv xs =
     mean_f32 pv (map (\<lambda>v. f32_mul (f32_sub v (mean_f32 pm xs)) (f32_sub v (mean_f32 pm xs))) xs)"

definition scaled_pixels_f32 :: "8 word tensor \<Rightarrow> real list" where
  "scaled_pixels_f32 img = map (\<lambda>p. f32_round (real (unat p) / 255)) (elems img)"

definition denominator_f32 :: "sum_order \<Rightarrow> sum_order \<Rightarrow> real list \<Rightarrow> real" where
  "denominator_f32 pm pv xs = f32_add (f32_sqrt (variance_f32 pm pv xs)) (f32_round (1 / 10 ^ 6))"

definition standardize_f32 :: "sum_order \<Rightarrow> sum_order \<Rightarrow> real list \<Rightarrow> real list" where
  "standardize_f32 pm pv xs =
     map (\<lambda>v. f32_div (f32_sub v (mean_f32 pm xs)) (denominator_f32 pm pv xs)) xs"

text \<open>The order that adds the elements \<open>0, ..., k\<close> of a list from left to right.\<close>

fun sequential :: "nat \<Rightarrow> sum_order" where
  "sequential 0 = Elem 0"
| "sequential (Suc k) = Add (sequential k) (Elem (Suc k))"

text \<open>
  What holds of the training state between two epochs, after epoch \<open>e\<close> (counted from 0),
  and of the state \<^verbatim>\<open>fit\<close> ends in; \<open>W\<close> gives the weights after each epoch of
  uninterrupted training and \<open>vl\<close> their validation loss.
\<close>

definition fit_invariant :: "(nat \<Rightarrow> 'w) \<Rightarrow> (nat \<Rightarrow> real) \<Rightarrow> nat \<Rightarrow> 'w fit_state \<Rightarrow> bool" where
  "fit_invariant W vl e st \<longleftrightarrow>
     \<not> stop_training st \<and> weights st = W e \<and> val_loss_history st = map vl [0..<Suc e]
     \<and> best_epoch st \<le> e \<and> best st = Some (vl (best_epoch st))
     \<and> best_weights st = Some (W (best_epoch st))
     \<and> wait st = e - best_epoch st \<and> wait st < 5
     \<and> (\<forall>i \<le> e. vl (best_epoch st) \<le> vl i)"

definition fit_result :: "(nat \<Rightarrow> 'w) \<Rightarrow> (nat \<Rightarrow> real) \<Rightarrow> nat \<Rightarrow> 'w fit_state \<Rightarrow> bool" where
  "fit_result W vl epochs r \<longleftrightarrow>
     length (val_loss_history r) \<le> epochs
     \<and> val_loss_history r = map vl [0..<length (val_loss_history r)]
     \<and> (stop_training r \<longrightarrow>
           weights r = W (best_epoch r) \<and> stopped_epoch r = best_epoch r + 5
         \<and> length (val_loss_history r) = stopped_epoch r + 1
         \<and> (\<forall>i < length (val_loss_history r). vl (best_epoch r) \<le> vl i))
     \<and> (\<not> stop_training r \<longrightarrow> length (val_loss_history r) = epochs)"

text \<open>
  The validation loss improves at epoch \<open>i\<close> (counted from 0) when it is below the loss
  of every earlier epoch, that is below the best loss so far; the first epoch always
  improves. Training has stalled at epoch \<open>s\<close> when none of the five epochs
  \<open>s - 4, ..., s\<close> improves.
\<close>

definition improves :: "(nat \<Rightarrow> real) \<Rightarrow> nat \<Rightarrow> bool" where
  "improves vl i \<longleftrightarrow> (\<forall>j < i. vl i < vl j)"

definition stalled :: "(nat \<Rightarrow> real) \<Rightarrow> nat \<Rightarrow> bool" where
  "stalled vl s \<longleftrightarrow> (\<forall>i. s - 4 \<le> i \<and> i \<le> s \<longrightarrow> \<not> improves vl i)"

text \<open>A validation loss that goes 10, 11, 9 and then stays at 12, by the number of epochs trained.\<close>

definition bumpy_loss :: "nat \<Rightarrow> real" where
  "bumpy_loss w = (if w = 1 then 10 else if w = 2 then 11 else if w = 3 then 9 else 12)"

text \<open>The all-zero image of the dataset's shape, 28 by 28 pixels with one channel.\<close>

definition zero_image :: "8 word tensor" where
  "zero_image = \<lparr>shape = [28, 28, 1], elems = replicate 784 0\<rparr>"

text \<open>An image of three pixels of intensity 173, with one channel.\<close>

definition gray173_image :: "8 word tensor" where
  "gray173_image = \<lparr>shape = [1, 3, 1], elems = [173, 173, 173]\<rparr>"

text \<open>An image of two pixels, black and white, with one channel.\<close>

definition two_pixel_image :: "8 word tensor" where
  "two_pixel_image = \<lparr>shape = [1, 2, 1], elems = [0, 255]\<rparr>"

section \<open>Properties of the label encoding\<close>

lemma length_tf_one_hot: "length (tf_one_hot l d) = d"
  by (simp add: tf_one_hot_def)

lemma nth_tf_one_hot:
  "i < d \<Longrightarrow> tf_one_hot l d ! i = (if int i = l then 1 else 0)"
  by (simp add: tf_one_hot_def)

lemma sum_list_indicator:
  "sum_list (map (\<lambda>i. if i = k then (1::real) else 0) [a..<b]) = (if a \<le> k \<and> k < b then 1 else 0)"
proof (induction b)
  case 0
  then show ?case by simp
next
  case (Suc b)
  then show ?case by (cases "a \<le> b") auto
qed

lemma sum_list_count_ones:
  "sum_list (map (\<lambda>i. if P i then (1::real) else 0) ys)
     = real (length (filter (\<lambda>v. v = 1) (map (\<lambda>i. if P i then (1::real) else 0) ys)))"
  by (induction ys) simp_all

lemma sum_list_tf_one_hot:
  "sum_list (tf_one_hot l d) = (if 0 \<le> l \<and> l < int d then 1 else 0)"
proof (cases "0 \<le> l")
  case True
  then have "(\<lambda>i. if int i = l then (1::real) else 0) = (\<lambda>i. if i = nat l then 1 else 0)"
    by (auto simp: fun_eq_iff)
  then have "sum_list (tf_one_hot l d) = (if nat l < d then 1 else 0)"
    by (simp add: tf_one_hot_def sum_list_indicator)
  with True show ?thesis by (simp add: nat_less_iff)
next
  case False
  then have "(\<lambda>i. if int i = l then (1::real) else 0) = (\<lambda>i. 0)"
    by (auto simp: fun_eq_iff)
  with False show ?thesis by (simp add: tf_one_hot_def)
qed

lemma tf_one_hot_in_range:
  assumes "0 \<le> l" and "l < int d"
  shows "tf_one_hot l d ! nat l = 1"
    and "\<forall>i < d. i \<noteq> nat l \<longrightarrow> tf_one_hot l d ! i = 0"
    and "length (filter (\<lambda>v. v = 1) (tf_one_hot l d)) = 1"
    and "set (tf_one_hot l d) \<subseteq> {0, 1}"
    and "sum_list (tf_one_hot l d) = 1"
proof -
  show "tf_one_hot l d ! nat l = 1"
    using assms by (simp add: nth_tf_one_hot nat_less_iff)
  show "\<forall>i < d. i \<noteq> nat l \<longrightarrow> tf_one_hot l d ! i = 0"
    using assms by (auto simp: nth_tf_one_hot)
  show "set (tf_one_hot l d) \<subseteq> {0, 1}"
    by (auto simp: tf_one_hot_def)
  show total: "sum_list (tf_one_hot l d) = 1"
    using assms by (simp add: sum_list_tf_one_hot)
  have "sum_list (tf_one_hot l d) = real (length (filter (\<lambda>v. v = 1) (tf_one_hot l d)))"
    by (simp add: tf_one_hot_def sum_list_count_ones)
  with total show "length (filter (\<lambda>v. v = 1) (tf_one_hot l d)) = 1" by simp
qed

section \<open>Properties of batching\<close>

lemma batch_Nil: "batch n [] = []"
  by (simp add: batch.simps)

lemma batch_step: "0 < n \<Longrightarrow> xs \<noteq> [] \<Longrightarrow> batch n xs = take n xs # batch n (drop n xs)"
  by (subst batch.simps) simp

lemma concat_batch: "0 < n \<Longrightarrow> concat (batch n xs) = xs"
proof (induction n xs rule: batch.induct)
  case (1 n xs)
  show ?case
  proof (cases "xs = []")
    case True
    then show ?thesis by (simp add: batch_Nil)
  next
    case False
    with 1 show ?thesis by (simp add: batch_step)
  qed
qed

lemma ceil_div_step:
  fixes m n :: nat
  assumes "0 < n" and "0 < m"
  shows "(m + n - 1) div n = Suc ((m - n + n - 1) div n)"
proof -
  have "m + n - 1 = (m - 1) + n" using assms by simp
  then have step: "(m + n - 1) div n = Suc ((m - 1) div n)" using assms
    by (simp only: div_add_self2)
  show ?thesis
  proof (cases "n \<le> m")
    case True
    with step show ?thesis by simp
  next
    case False
    with assms have "(m - 1) div n = 0" and "(m - n + n - 1) div n = 0" by simp_all
    with step show ?thesis by simp
  qed
qed

lemma length_batch: "0 < n \<Longrightarrow> length (batch n xs) = (length xs + n - 1) div n"
proof (induction n xs rule: batch.induct)
  case (1 n xs)
  show ?case
  proof (cases "xs = []")
    case True
    with 1(2) show ?thesis by (simp add: batch_Nil)
  next
    case False
    then have pos: "0 < length xs" by simp
    have "length (batch n (drop n xs)) = (length xs - n + n - 1) div n"
      using 1 False by simp
    with False 1(2) ceil_div_step [OF 1(2) pos] show ?thesis
      by (simp add: batch_step)
  qed
qed

lemma nth_batch:
  "0 < n \<Longrightarrow> i < length (batch n xs) \<Longrightarrow> batch n xs ! i = take n (drop (i * n) xs)"
proof (induction n xs arbitrary: i rule: batch.induct)
  case (1 n xs)
  show ?case
  proof (cases "xs = []")
    case True
    with 1(3) show ?thesis by (simp add: batch_Nil)
  next
    case False
    note ne = this
    show ?thesis
    proof (cases i)
      case 0
      with ne 1(2) show ?thesis by (simp add: batch_step)
    next
      case (Suc j)
      with 1(3) ne 1(2) have "j < length (batch n (drop n xs))"
        by (simp add: batch_step)
      with 1(1) [of j] ne 1(2) have "batch n (drop n xs) ! j = take n (drop (j * n) (drop n xs))"
        by simp
      with Suc ne 1(2) show ?thesis by (simp add: batch_step add.commute)
    qed
  qed
qed

lemma length_nth_batch:
  assumes "0 < n" and "i < length (batch n xs)"
  shows "length (batch n xs ! i) = min n (length xs - i * n)"
  using assms by (simp add: nth_batch min.commute)

lemma batch_full_before_last:
  assumes "0 < n" and "Suc i < length (batch n xs)"
  shows "length (batch n xs ! i) = n"
proof -
  from assms have "Suc (Suc i) \<le> (length xs + n - 1) div n" by (simp add: length_batch)
  then have "Suc (Suc i) * n \<le> length xs + n - 1" using assms(1)
    by (metis less_Suc_eq_le less_mult_imp_div_less less_or_eq_imp_le
        nat_neq_iff not_less_eq_eq)
  then have "n \<le> length xs - i * n" using assms(1) by simp
  with assms show ?thesis by (simp add: length_nth_batch)
qed

lemma last_chunk_size:
  fixes N n :: nat
  assumes "0 < n" and "0 < N"
  shows "min n (N - ((N - 1) div n) * n) = (if N mod n = 0 then n else N mod n)"
proof -
  define q r where "q = (N - 1) div n" and "r = (N - 1) mod n"
  have r: "r < n" using assms(1) by (simp add: r_def)
  have "N - 1 = q * n + r" by (simp add: q_def r_def)
  with assms(2) have N: "N = q * n + Suc r" by simp
  then have rest: "N - q * n = Suc r" by simp
  have "N mod n = Suc r mod n" by (simp add: N)
  also have "\<dots> = (if Suc r = n then 0 else Suc r)" using r by (simp add: mod_Suc)
  finally have "(if N mod n = 0 then n else N mod n) = Suc r" by auto
  moreover have "min n (Suc r) = Suc r" using r by simp
  ultimately show ?thesis using rest by (simp add: q_def)
qed

lemma batch_last_size:
  assumes "0 < n" and "xs \<noteq> []"
  shows "length (last (batch n xs)) = (if length xs mod n = 0 then n else length xs mod n)"
proof -
  let ?N = "length xs" and ?k = "length (batch n xs)"
  have N: "0 < ?N" using assms by simp
  from assms(2) have "?N + n - 1 = (?N - 1) + n" by (cases xs) simp_all
  then have "(?N + n - 1) div n = Suc ((?N - 1) div n)"
    using assms(1) by (simp only: div_add_self2)
  then have k: "?k = Suc ((?N - 1) div n)" using assms(1) by (simp add: length_batch)
  then have "batch n xs \<noteq> []" by auto
  then have "last (batch n xs) = batch n xs ! (?k - 1)" by (rule last_conv_nth)
  with k have "last (batch n xs) = batch n xs ! ((?N - 1) div n)" by simp
  then have "length (last (batch n xs)) = min n (?N - ((?N - 1) div n) * n)"
    using assms(1) k by (simp add: length_nth_batch)
  with last_chunk_size [OF assms(1) N] show ?thesis by simp
qed

lemma ceiling_nat_div:
  fixes N n :: nat
  assumes "0 < n"
  shows "\<lceil>real N / real n\<rceil> = int ((N + n - 1) div n)"
proof -
  define q r where "q = (N + n - 1) div n" and "r = (N + n - 1) mod n"
  have r: "r < n" using assms by (simp add: r_def)
  have "N + n - 1 = q * n + r" by (simp add: q_def r_def)
  with assms have eq: "N + n = q * n + r + 1" by simp
  from eq r have "N \<le> q * n" by simp
  then have "real N \<le> real (q * n)" by (rule of_nat_mono)
  then have up: "real N / real n \<le> real q" using assms by (simp add: pos_divide_le_eq)
  from eq have "q * n < N + n" by simp
  then have "real (q * n) < real (N + n)" by (simp only: of_nat_less_iff)
  then have "(real q - 1) * real n < real N" by (simp add: algebra_simps)
  then have lo: "real q - 1 < real N / real n" using assms by (simp add: pos_less_divide_eq)
  have "\<lceil>real N / real n\<rceil> = int q"
    by (rule ceiling_unique) (use lo up in simp_all)
  then show ?thesis by (simp add: q_def)
qed

section \<open>Properties of the shuffle buffer and of the pipelines\<close>

lemma mset_remove_nth:
  assumes "i < length buf"
  shows "add_mset (buf ! i) (mset (take i buf) + mset (drop (Suc i) buf)) = mset buf"
proof -
  from assms have "buf = take i buf @ buf ! i # drop (Suc i) buf"
    by (simp add: id_take_nth_drop)
  then have "mset buf = mset (take i buf @ buf ! i # drop (Suc i) buf)" by simp
  then show ?thesis by simp
qed

text \<open>The shuffle emits every element once: its output is a permutation of its input.\<close>

lemma mset_shuffle_buffer:
  "buf = [] \<longrightarrow> input = [] \<Longrightarrow> mset (shuffle_buffer choices buf input) = mset buf + mset input"
proof (induction choices buf input rule: shuffle_buffer.induct)
  case (1 choices buf input)
  show ?case
  proof (cases "buf = []")
    case True
    with 1(3) show ?thesis by (simp add: shuffle_buffer.simps)
  next
    case False
    define i where "i = (case choices of [] \<Rightarrow> 0 | c # _ \<Rightarrow> c mod length buf)"
    from False have i: "i < length buf" by (cases choices) (simp_all add: i_def)
    show ?thesis
    proof (cases "input = []")
      case True
      with 1(1) [OF False i_def True] False i show ?thesis
        by (subst shuffle_buffer.simps) (simp add: i_def [symmetric] Let_def mset_remove_nth)
    next
      case ne: False
      then obtain x rest where input: "input = x # rest" by (cases input) auto
      from False i have "buf[i := hd input] \<noteq> []" by simp
      with 1(2) [OF False i_def ne] False i ne show ?thesis
        by (subst shuffle_buffer.simps)
           (simp add: i_def [symmetric] Let_def input mset_update)
    qed
  qed
qed

lemma mset_ds_shuffle:
  assumes "0 < b"
  shows "mset (items (ds_shuffle b choices d)) = mset (items d)"
proof -
  from assms have "take b (items d) = [] \<longrightarrow> drop b (items d) = []" by (cases "items d") auto
  then have "mset (items (ds_shuffle b choices d)) = mset (take b (items d)) + mset (drop b (items d))"
    by (simp add: ds_shuffle_def mset_shuffle_buffer)
  also have "\<dots> = mset (items d)" by (metis append_take_drop_id mset_append)
  finally show ?thesis .
qed

text \<open>The parallel calls emit every result once, and in order when each completes in turn.\<close>

lemma mset_parallel_emit: "mset (parallel_emit workers completion pending) = mset pending"
proof (induction workers completion pending rule: parallel_emit.induct)
  case (1 workers completion pending)
  show ?case
  proof (cases "pending = [] \<or> workers = 0")
    case True
    then show ?thesis by (subst parallel_emit.simps) simp
  next
    case False
    define i where "i = (case completion of [] \<Rightarrow> 0
                         | c # _ \<Rightarrow> c mod (min workers (length pending)))"
    have i: "i < length pending"
    proof (cases completion)
      case Nil
      with False show ?thesis by (simp add: i_def)
    next
      case (Cons c cs)
      from False have "c mod (min workers (length pending)) < min workers (length pending)"
        by (intro mod_less_divisor) simp
      with Cons show ?thesis by (simp add: i_def)
    qed
    from 1 [OF False i_def] False i show ?thesis
      by (subst parallel_emit.simps) (simp add: i_def [symmetric] Let_def mset_remove_nth)
  qed
qed

lemma parallel_emit_in_order: "parallel_emit workers [] pending = pending"
proof (induction pending)
  case Nil
  then show ?case by (subst parallel_emit.simps) simp
next
  case (Cons x xs)
  then show ?case by (subst parallel_emit.simps) simp
qed

lemma load_datasets_train:
  "fst (load_datasets raw_train raw_test choices) =
     \<lparr>items = batch BATCH_SIZE (items (ds_shuffle 1000 (shuffle_choices choices)
                \<lparr>items = parallel_emit (map_workers choices) (train_completion choices)
                           (map (\<lambda>(img, label). normalize_img img label) raw_train),
                 ops = [DsMap AUTOTUNE, DsCache], deterministic = False\<rparr>)),
      ops = [DsMap AUTOTUNE, DsCache, DsShuffle 1000, DsBatch BATCH_SIZE, DsPrefetch AUTOTUNE],
      deterministic = False\<rparr>"
  by (simp add: load_datasets_def Let_def tfds_load_def ds_map_def ds_cache_def ds_shuffle_def
      ds_batch_def ds_prefetch_def)

lemma load_datasets_test:
  "snd (load_datasets raw_train raw_test choices) =
     \<lparr>items = batch BATCH_SIZE
                (parallel_emit (map_workers choices) (test_completion choices)
                   (map (\<lambda>(img, label). normalize_img img label) raw_test)),
      ops = [DsMap AUTOTUNE, DsBatch BATCH_SIZE, DsCache, DsPrefetch AUTOTUNE],
      deterministic = False\<rparr>"
  by (simp add: load_datasets_def Let_def tfds_load_def ds_map_def ds_cache_def ds_batch_def
      ds_prefetch_def)

lemma length_parallel_emit: "length (parallel_emit workers completion pending) = length pending"
proof -
  have "size (mset (parallel_emit workers completion pending)) = size (mset pending)"
    by (simp only: mset_parallel_emit)
  then show ?thesis by simp
qed

lemma train_items_mset:
  "mset (concat (items (fst (load_datasets raw_train raw_test choices))))
     = mset (map (\<lambda>(img, label). normalize_img img label) raw_train)"
proof -
  let ?d = "\<lparr>items = parallel_emit (map_workers choices) (train_completion choices)
                       (map (\<lambda>(img, label). normalize_img img label) raw_train),
             ops = [DsMap AUTOTUNE, DsCache], deterministic = False\<rparr>"
  have "mset (items (ds_shuffle 1000 (shuffle_choices choices) ?d)) = mset (items ?d)"
    by (rule mset_ds_shuffle) simp
  then show ?thesis
    by (simp add: load_datasets_train concat_batch BATCH_SIZE_def mset_parallel_emit)
qed

lemma train_items_length:
  "length (concat (items (fst (load_datasets raw_train raw_test choices)))) = length raw_train"
proof -
  have "size (mset (concat (items (fst (load_datasets raw_train raw_test choices)))))
      = size (mset (map (\<lambda>(img, label). normalize_img img label) raw_train))"
    by (simp only: train_items_mset)
  then show ?thesis by simp
qed

text \<open>
  Claim C6. For every dataset of \<open>N\<close> samples, batching with the program's batch size 128
  produces exactly \<open>ceil(N/128)\<close> batches; every batch except possibly the last has size
  128; the last batch (there is one when \<open>N > 0\<close>) has size \<open>N mod 128\<close>, or 128 when 128
  divides \<open>N\<close>; and the batches hold the samples in their order. The number of batches
  of the test and of the train pipeline of \<^verbatim>\<open>load_datasets\<close> is that of their split.
\<close>

theorem batch_count_and_sizes:
  "int (length (batch BATCH_SIZE xs)) = \<lceil>real (length xs) / 128\<rceil>
   \<and> (\<forall>i. Suc i < length (batch BATCH_SIZE xs) \<longrightarrow> length (batch BATCH_SIZE xs ! i) = 128)
   \<and> (xs \<noteq> [] \<longrightarrow>
        length (last (batch BATCH_SIZE xs))
          = (if length xs mod 128 = 0 then 128 else length xs mod 128))
   \<and> concat (batch BATCH_SIZE xs) = xs
   \<and> int (length (items (snd (load_datasets raw_train raw_test choices))))
        = \<lceil>real (length raw_test) / 128\<rceil>
   \<and> int (length (items (fst (load_datasets raw_train raw_test choices))))
        = \<lceil>real (length raw_train) / 128\<rceil>"
proof -
  have pos: "0 < BATCH_SIZE" by (simp add: BATCH_SIZE_def)
  have count: "int (length (batch BATCH_SIZE ys)) = \<lceil>real (length ys) / 128\<rceil>" for ys :: "'b list"
    using ceiling_nat_div [of 128 "length ys"] length_batch [OF pos, of ys]
    by (simp add: BATCH_SIZE_def)
  have full: "\<forall>i. Suc i < length (batch BATCH_SIZE xs) \<longrightarrow> length (batch BATCH_SIZE xs ! i) = 128"
    using batch_full_before_last [OF pos, of _ xs] by (simp add: BATCH_SIZE_def)
  have final: "xs \<noteq> [] \<longrightarrow> length (last (batch BATCH_SIZE xs))
      = (if length xs mod 128 = 0 then 128 else length xs mod 128)"
    using batch_last_size [OF pos, of xs] by (simp add: BATCH_SIZE_def)
  have order: "concat (batch BATCH_SIZE xs) = xs"
    by (rule concat_batch [OF pos])
  have test: "int (length (items (snd (load_datasets raw_train raw_test choices))))
      = \<lceil>real (length raw_test) / 128\<rceil>"
    using count [of "parallel_emit (map_workers choices) (test_completion choices)
        (map (\<lambda>(img, label). normalize_img img label) raw_test)"]
    by (simp add: load_datasets_test length_parallel_emit)
  let ?shuffled = "items (ds_shuffle 1000 (shuffle_choices choices)
      \<lparr>items = parallel_emit (map_workers choices) (train_completion choices)
                 (map (\<lambda>(img, label). normalize_img img label) raw_train),
       ops = [DsMap AUTOTUNE, DsCache], deterministic = False\<rparr>)"
  have "length ?shuffled = length raw_train"
    using train_items_length [of raw_train raw_test choices]
    by (simp add: load_datasets_train concat_batch [OF pos])
  then have train: "int (length (items (fst (load_datasets raw_train raw_test choices))))
      = \<lceil>real (length raw_train) / 128\<rceil>"
    using count [of ?shuffled] by (simp add: load_datasets_train)
  from count [of xs] full final order test train show ?thesis by blast
qed

theorem batch_count_and_sizes_witness:
  "length (batch BATCH_SIZE (replicate 300 (0::nat))) = 3
   \<and> length (batch BATCH_SIZE (replicate 300 (0::nat)) ! 0) = 128
   \<and> length (batch BATCH_SIZE (replicate 300 (0::nat)) ! 1) = 128
   \<and> length (last (batch BATCH_SIZE (replicate 300 (0::nat)))) = 44"
proof -
  let ?xs = "replicate 300 (0::nat)"
  note w = batch_count_and_sizes [of ?xs "[]" "[]"
      "\<lparr>shuffle_choices = [], map_workers = 1, train_completion = [], test_completion = []\<rparr>"]
  from w have "int (length (batch BATCH_SIZE ?xs)) = \<lceil>real (length ?xs) / 128\<rceil>" by blast
  then have n: "length (batch BATCH_SIZE ?xs) = 3" by simp
  from w have "\<forall>i. Suc i < length (batch BATCH_SIZE ?xs) \<longrightarrow> length (batch BATCH_SIZE ?xs ! i) = 128"
    by blast
  with n have b: "length (batch BATCH_SIZE ?xs ! 0) = 128" "length (batch BATCH_SIZE ?xs ! 1) = 128"
    by simp_all
  have "?xs \<noteq> []" by simp
  with w have "length (last (batch BATCH_SIZE ?xs))
      = (if length ?xs mod 128 = 0 then 128 else length ?xs mod 128)" by blast
  then have "length (last (batch BATCH_SIZE ?xs)) = 44" by simp
  with n b show ?thesis by simp
qed

section \<open>The architecture\<close>

text \<open>
  Claim C8. The model built by \<^verbatim>\<open>build_model\<close> is exactly the sequence of ten layers
  Conv(32 filters, 5 by 5, ReLU, no padding, He-normal), MaxPool 2 by 2, Dropout 0.15,
  Conv(64 filters, 5 by 5, ReLU, no padding, He-normal), MaxPool 2 by 2, Dropout 0.15,
  Flatten, Dense(1024, ReLU, He-normal), Dropout 0.15, Dense(10, softmax); it is compiled
  with the categorical cross-entropy loss, the Adam optimizer with learning rate 0.001 and
  accuracy as the one metric. On the declared input shape 28 by 28 by 1 the layers yield
  1024 features after \<^verbatim>\<open>Flatten\<close> and 10 outputs.
\<close>

theorem build_model_architecture:
  "layers build_model =
     [Conv2D 32 5 ReLU Valid HeNormal (Some [28, 28, 1]),
      MaxPooling2D 2,
      Dropout (15 / 100),
      Conv2D 64 5 ReLU Valid HeNormal None,
      MaxPooling2D 2,
      Dropout (15 / 100),
      Flatten,
      Dense 1024 ReLU HeNormal,
      Dropout (15 / 100),
      Dense 10 Softmax GlorotUniform]
   \<and> length (layers build_model) = 10
   \<and> model_loss build_model = CategoricalCrossentropy
   \<and> model_optimizer build_model = Adam (1 / 1000)
   \<and> model_metrics build_model = [Accuracy]
   \<and> foldl (\<lambda>s l. layer_output_shape l s) INPUT_SHAPE (take 7 (layers build_model)) = [1024]
   \<and> foldl (\<lambda>s l. layer_output_shape l s) INPUT_SHAPE (layers build_model) = [10]"
  by (simp add: build_model_def INPUT_SHAPE_def DROPOUT_RATE_def NUM_CLASSES_def)

section \<open>Saving the model\<close>

text \<open>
  Claim C1 says that after training and plotting the two \<^verbatim>\<open>model.save\<close> calls complete
  and only the \<^verbatim>\<open>model.export\<close> call raises. The program does not get that far: line 142
  reads the name \<^verbatim>\<open>MODEL_DIR\<close>, which the module never binds, so \<^verbatim>\<open>main\<close> raises
  \<^verbatim>\<open>NameError\<close> there, whatever the working directory holds and whether or not the model
  object has an \<^verbatim>\<open>export\<close> method, and nothing is written.
\<close>

theorem main_save_name_error:
  "main_save model_has_export w = Inl (NameError ''MODEL_DIR'')"
  by (simp add: main_save_def load_global_def module_globals_def builtins_used_def)

section \<open>Properties of the per-sample transform\<close>

lemma map_nth_fun: "map (\<lambda>i. g (xs ! i)) [0..<length xs] = map g xs"
proof -
  have "map (\<lambda>i. g (xs ! i)) [0..<length xs] = map g (map (nth xs) [0..<length xs])"
    by simp
  then show ?thesis by (simp only: map_nth)
qed

lemma reduced_column_flat: "reduced_column (length xs) (Suc 0) xs 0 = xs"
  by (simp add: reduced_column_def map_nth)

lemma prod_list_take_drop: "prod_list (take k s) * prod_list (drop k s) = prod_list (s :: nat list)"
  by (metis append_take_drop_id prod_list.append)

lemma moments_flat:
  assumes "k \<le> length (shape x)" and "prod_list (drop k (shape x)) = 1" and "wf_tensor x"
  shows "tf_nn_moments x k =
    Inr (\<lparr>shape = drop k (shape x), elems = [mean_of (elems x)]\<rparr>,
         \<lparr>shape = drop k (shape x), elems = [variance_of (elems x)]\<rparr>)"
proof -
  have n: "prod_list (take k (shape x)) = length (elems x)"
    using prod_list_take_drop [of k "shape x"] assms(2,3) by (simp add: wf_tensor_def)
  show ?thesis
    using assms(1)
    by (simp add: tf_nn_moments_def Let_def n assms(2) reduced_column_flat mean_of_def variance_of_def)
qed

lemma broadcast_scalar:
  "tf_broadcast f x \<lparr>shape = s, elems = [c]\<rparr> = \<lparr>shape = shape x, elems = map (\<lambda>v. f v c) (elems x)\<rparr>"
  using map_nth_fun [of "\<lambda>v. f v c" "elems x"] by (simp add: tf_broadcast_def)

lemma normalize_img_rank3:
  assumes "length (shape img) = 3" and "wf_tensor img"
  shows "normalize_img img l =
     Inr (\<lparr>shape = shape img @ [1], elems = standardize (scaled_pixels img)\<rparr>,
          tf_one_hot l NUM_CLASSES)"
proof -
  let ?x = "tf_divide_scalar (tf_cast_float32 img) 255"
  have sh: "shape ?x = shape img" and el: "elems ?x = scaled_pixels img"
    by (simp_all add: tf_divide_scalar_def tf_cast_float32_def scaled_pixels_def)
  have wf: "wf_tensor ?x" using assms(2) by (simp add: wf_tensor_def sh el scaled_pixels_def)
  have "tf_nn_moments ?x 3 =
    Inr (\<lparr>shape = [], elems = [mean_of (scaled_pixels img)]\<rparr>,
         \<lparr>shape = [], elems = [variance_of (scaled_pixels img)]\<rparr>)"
    using moments_flat [of 3 ?x] wf assms(1) by (simp add: sh el)
  then show ?thesis
    by (simp add: normalize_img_def Let_def tf_sqrt_def tf_add_scalar_def broadcast_scalar
        tf_expand_dims_last_def sh el standardize_def)
qed

lemma normalize_img_error_iff:
  "(\<exists>e. normalize_img img l = Inl e) \<longleftrightarrow> length (shape img) < 3"
  by (auto simp: normalize_img_def tf_nn_moments_def Let_def tf_divide_scalar_def tf_cast_float32_def)

lemma normalize_img_shape:
  assumes "normalize_img img l = Inr (out, lab)"
  shows "shape out = shape img @ [1] \<and> 3 \<le> length (shape img)"
  using assms
  by (auto simp: normalize_img_def tf_nn_moments_def Let_def tf_divide_scalar_def tf_cast_float32_def
      tf_expand_dims_last_def tf_broadcast_def split: if_splits)


lemma variance_of_nonneg: "0 \<le> variance_of xs"
proof -
  have "0 \<le> sum_list (map (\<lambda>v. (v - mean_of xs)\<^sup>2) xs)"
    by (rule sum_list_nonneg) auto
  then show ?thesis by (simp add: variance_of_def mean_of_def)
qed

lemma mean_of_affine:
  assumes "xs \<noteq> []"
  shows "mean_of (map (\<lambda>v. (v - c) / d) xs) = (mean_of xs - c) / d"
proof -
  have n: "real (length xs) \<noteq> 0" using assms by simp
  have "sum_list (map (\<lambda>v. (v - c) / d) xs) = sum_list (map (\<lambda>v. (v - c) * (1 / d)) xs)"
    by simp
  also have "\<dots> = sum_list (map (\<lambda>v. v - c) xs) * (1 / d)"
    by (rule sum_list_mult_const)
  also have "sum_list (map (\<lambda>v. v - c) xs) = sum_list xs - real (length xs) * c"
    by (simp add: sum_list_subtractf sum_list_triv)
  finally have "sum_list (map (\<lambda>v. (v - c) / d) xs) = (sum_list xs - real (length xs) * c) / d"
    by simp
  then show ?thesis using n by (simp add: mean_of_def field_simps)
qed

lemma mean_of_standardize:
  assumes "xs \<noteq> []"
  shows "mean_of (standardize xs) = 0"
  unfolding standardize_def using mean_of_affine [OF assms] by simp

lemma variance_of_standardize:
  assumes "xs \<noteq> []"
  shows "variance_of (standardize xs) = variance_of xs / (sqrt (variance_of xs) + 1 / 10 ^ 6)\<^sup>2"
proof -
  let ?d = "sqrt (variance_of xs) + 1 / 10 ^ 6" and ?m = "mean_of xs"
  have "variance_of (standardize xs)
      = mean_of (map (\<lambda>w. w\<^sup>2) (standardize xs))"
    by (simp add: variance_of_def [of "standardize xs"] mean_of_standardize [OF assms])
  also have "map (\<lambda>w. w\<^sup>2) (standardize xs) = map (\<lambda>v. (v - ?m)\<^sup>2 * (1 / ?d\<^sup>2)) xs"
    by (simp add: standardize_def power_divide)
  also have "mean_of \<dots> = mean_of (map (\<lambda>v. (v - ?m)\<^sup>2) xs) * (1 / ?d\<^sup>2)"
    unfolding mean_of_def by (simp only: sum_list_mult_const length_map) simp
  finally show ?thesis by (simp add: variance_of_def)
qed

lemma scaled_pixels_range: "v \<in> set (scaled_pixels img) \<Longrightarrow> 0 \<le> v \<and> v \<le> 1"
proof -
  assume "v \<in> set (scaled_pixels img)"
  then obtain p :: "8 word" where p: "v = real (unat p) / 255"
    by (auto simp: scaled_pixels_def)
  define a where "a = real (unat p)"
  have "unat p < 2 ^ 8" using unsigned_less [of p] by simp
  then have "unat p \<le> 255" by simp
  then have "real (unat p) \<le> real 255" by (rule of_nat_mono)
  then have hi: "a \<le> 255" by (simp add: a_def)
  have lo: "0 \<le> a" unfolding a_def by (rule of_nat_0_le_iff)
  from p have "v = a / 255" by (simp add: a_def)
  with lo hi show ?thesis by simp
qed

lemma constant_moments:
  assumes "xs \<noteq> []" and "\<forall>v \<in> set xs. v = c"
  shows "mean_of xs = c" and "variance_of xs = 0" and "standardize xs = replicate (length xs) 0"
proof -
  from assms(2) have xs: "xs = replicate (length xs) c"
    by (simp add: replicate_length_same)
  have n: "real (length xs) \<noteq> 0" using assms(1) by simp
  have "sum_list xs = real (length xs) * c"
    by (subst xs) (simp add: sum_list_replicate)
  then show m: "mean_of xs = c" using n by (simp add: mean_of_def)
  have z: "map (\<lambda>v. (v - c)\<^sup>2) xs = replicate (length xs) 0"
    by (subst xs) simp
  show v: "variance_of xs = 0"
    by (simp add: variance_of_def m z) (simp add: mean_of_def sum_list_replicate)
  have "map (\<lambda>v. (v - c) / (1 / 10 ^ 6)) xs = replicate (length xs) (0::real)"
    by (subst xs) simp
  then show "standardize xs = replicate (length xs) 0"
    by (simp add: standardize_def m v)
qed


lemma moments_variance_nonneg:
  assumes "tf_nn_moments x k = Inr (mean, var)" and "v \<in> set (elems var)"
  shows "0 \<le> v"
proof -
  from assms obtain c ys n where "v = sum_list (map (\<lambda>u. (u - c)\<^sup>2) ys) / real n"
    by (auto simp: tf_nn_moments_def Let_def split: if_splits)
  moreover have "0 \<le> sum_list (map (\<lambda>u. (u - c)\<^sup>2) ys)"
    by (rule sum_list_nonneg) auto
  ultimately show ?thesis by simp
qed

lemma std_denominators_eq:
  assumes "tf_nn_moments (tf_divide_scalar (tf_cast_float32 img) 255) 3 = Inr (mean, var)"
  shows "std_denominators img = Inr (map (\<lambda>v. sqrt v + 1 / 10 ^ 6) (elems var))"
  using assms by (simp add: std_denominators_def tf_add_scalar_def tf_sqrt_def)

text \<open>
  Claim C9. For every input image (at least three axes, as the reduction over
  \<open>axes=[0, 1, 2]\<close> requires, and at least one pixel) every variance computed by line 38
  is non-negative, so every denominator \<^verbatim>\<open>sqrt(variance) + 1e-6\<close> of the division of
  line 40 is strictly positive: the division never divides by zero, and the transform
  returns the quotient by these denominators.
\<close>

theorem denominator_strictly_positive:
  assumes "3 \<le> length (shape img)" and "wf_tensor img" and "elems img \<noteq> []"
  shows "\<exists>mean var ds.
      tf_nn_moments (tf_divide_scalar (tf_cast_float32 img) 255) 3 = Inr (mean, var)
    \<and> (\<forall>v \<in> set (elems var). 0 \<le> v)
    \<and> std_denominators img = Inr ds
    \<and> ds = map (\<lambda>v. sqrt v + 1 / 10 ^ 6) (elems var)
    \<and> (\<forall>d \<in> set ds. 0 < d)
    \<and> normalize_img img l
        = Inr (tf_expand_dims_last
                 (tf_broadcast (/)
                    (tf_broadcast (-) (tf_divide_scalar (tf_cast_float32 img) 255) mean)
                    \<lparr>shape = shape var, elems = ds\<rparr>),
               tf_one_hot l NUM_CLASSES)"
proof -
  let ?x = "tf_divide_scalar (tf_cast_float32 img) 255"
  have "shape ?x = shape img" by (simp add: tf_divide_scalar_def tf_cast_float32_def)
  with assms(1) obtain mean var where mv: "tf_nn_moments ?x 3 = Inr (mean, var)"
    by (auto simp: tf_nn_moments_def Let_def)
  have nonneg: "\<forall>v \<in> set (elems var). 0 \<le> v"
    using moments_variance_nonneg [OF mv] by blast
  let ?ds = "map (\<lambda>v. sqrt v + 1 / 10 ^ 6) (elems var)"
  have ds: "std_denominators img = Inr ?ds" by (rule std_denominators_eq [OF mv])
  have pos: "\<forall>d \<in> set ?ds. 0 < d"
  proof
    fix d assume "d \<in> set ?ds"
    then obtain v where v: "v \<in> set (elems var)" and d: "d = sqrt v + 1 / 10 ^ 6" by auto
    from nonneg v have "0 \<le> sqrt v" by simp
    with d show "0 < d" by (simp add: add_nonneg_pos)
  qed
  have result: "normalize_img img l
        = Inr (tf_expand_dims_last
                 (tf_broadcast (/) (tf_broadcast (-) ?x mean) \<lparr>shape = shape var, elems = ?ds\<rparr>),
               tf_one_hot l NUM_CLASSES)"
    using mv by (simp add: normalize_img_def Let_def tf_add_scalar_def tf_sqrt_def comp_def)
  from mv nonneg ds pos result show ?thesis by blast
qed

lemma scaled_moments_rank3:
  assumes "length (shape img) = 3" and "wf_tensor img"
  shows "tf_nn_moments (tf_divide_scalar (tf_cast_float32 img) 255) 3 =
    Inr (\<lparr>shape = [], elems = [mean_of (scaled_pixels img)]\<rparr>,
         \<lparr>shape = [], elems = [variance_of (scaled_pixels img)]\<rparr>)"
proof -
  let ?x = "tf_divide_scalar (tf_cast_float32 img) 255"
  have sh: "shape ?x = shape img" and el: "elems ?x = scaled_pixels img"
    by (simp_all add: tf_divide_scalar_def tf_cast_float32_def scaled_pixels_def)
  have wf: "wf_tensor ?x" using assms(2) by (simp add: wf_tensor_def sh el scaled_pixels_def)
  show ?thesis using moments_flat [of 3 ?x] wf assms(1) by (simp add: sh el)
qed

lemma output_moments_rank3:
  assumes "length s = 3" and "length ys = prod_list s"
  shows "tf_nn_moments \<lparr>shape = s @ [1], elems = ys\<rparr> 3 =
    Inr (\<lparr>shape = [1], elems = [mean_of ys]\<rparr>, \<lparr>shape = [1], elems = [variance_of ys]\<rparr>)"
  using moments_flat [of 3 "\<lparr>shape = s @ [1], elems = ys\<rparr>"] assms
  by (simp add: wf_tensor_def)

lemma variance_ratio_less_one:
  assumes "0 \<le> v"
  shows "0 \<le> v / (sqrt v + 1 / 10 ^ 6)\<^sup>2" and "v / (sqrt v + 1 / 10 ^ 6)\<^sup>2 < 1"
proof -
  let ?e = "1 / 10 ^ 6 :: real"
  have s: "0 \<le> sqrt v" using assms by simp
  have "0 < sqrt v + ?e" using s by (simp add: add_nonneg_pos)
  then have d: "0 < (sqrt v + ?e)\<^sup>2" by (rule zero_less_power)
  show "0 \<le> v / (sqrt v + ?e)\<^sup>2" using assms by simp
  have "(sqrt v + ?e)\<^sup>2 = (sqrt v)\<^sup>2 + 2 * sqrt v * ?e + ?e\<^sup>2"
    by (simp add: power2_sum)
  also have "(sqrt v)\<^sup>2 = v" using assms by simp
  finally have sq: "(sqrt v + ?e)\<^sup>2 = v + 2 * sqrt v * ?e + ?e\<^sup>2" .
  have "0 \<le> 2 * sqrt v * ?e" using s by simp
  moreover have "0 < ?e\<^sup>2" by simp
  ultimately have "v < (sqrt v + ?e)\<^sup>2" unfolding sq by linarith
  with d show "v / (sqrt v + ?e)\<^sup>2 < 1" by simp
qed

lemma variance_of_unit_scaling:
  assumes "xs \<noteq> []" and "0 < variance_of xs"
  shows "mean_of (map (\<lambda>x. (x - mean_of xs) / sqrt (variance_of xs)) xs) = 0"
    and "variance_of (map (\<lambda>x. (x - mean_of xs) / sqrt (variance_of xs)) xs) = 1"
proof -
  let ?m = "mean_of xs" and ?v = "variance_of xs"
  let ?ys = "map (\<lambda>x. (x - ?m) / sqrt ?v) xs"
  show m0: "mean_of ?ys = 0" using mean_of_affine [OF assms(1), of ?m "sqrt ?v"] by simp
  have "variance_of ?ys = mean_of (map (\<lambda>w. w\<^sup>2) ?ys)"
    by (simp add: variance_of_def [of ?ys] m0)
  also have "map (\<lambda>w. w\<^sup>2) ?ys = map (\<lambda>x. (x - ?m)\<^sup>2 * (1 / ?v)) xs"
    using assms(2) by (simp add: power_divide)
  also have "mean_of \<dots> = mean_of (map (\<lambda>x. (x - ?m)\<^sup>2) xs) * (1 / ?v)"
    unfolding mean_of_def by (simp only: sum_list_mult_const length_map) simp
  also have "\<dots> = 1" using assms(2) by (simp add: variance_of_def [of xs])
  finally show "variance_of ?ys = 1" .
qed

text \<open>
  In exact arithmetic the standardized image has mean 0 over its three axes and variance
  \<open>v / (sqrt v + 1e-6)\<^sup>2\<close>, where \<open>v\<close> is the variance of the scaled image: at least 0 and
  below 1, and 0 for a constant image; with the constant 1e-6 left out of the denominator
  an image of positive variance gets mean 0 and variance exactly 1.
\<close>

lemma exact_standardization_moments:
  assumes "length (shape img) = 3" and "wf_tensor img" and "elems img \<noteq> []"
  shows "\<exists>m v out lab.
      tf_nn_moments (tf_divide_scalar (tf_cast_float32 img) 255) 3
        = Inr (\<lparr>shape = [], elems = [m]\<rparr>, \<lparr>shape = [], elems = [v]\<rparr>)
    \<and> elems (tf_divide_scalar (tf_cast_float32 img) 255)
        = map (\<lambda>p. real (unat p) / 255) (elems img)
    \<and> (\<forall>x \<in> set (elems (tf_divide_scalar (tf_cast_float32 img) 255)). 0 \<le> x \<and> x \<le> 1)
    \<and> normalize_img img l = Inr (out, lab)
    \<and> elems out = map (\<lambda>p. (real (unat p) / 255 - m) / (sqrt v + 1 / 10 ^ 6)) (elems img)
    \<and> tf_nn_moments out 3
        = Inr (\<lparr>shape = [1], elems = [0]\<rparr>,
               \<lparr>shape = [1], elems = [v / (sqrt v + 1 / 10 ^ 6)\<^sup>2]\<rparr>)
    \<and> 0 \<le> v / (sqrt v + 1 / 10 ^ 6)\<^sup>2 \<and> v / (sqrt v + 1 / 10 ^ 6)\<^sup>2 < 1
    \<and> (v = 0 \<longrightarrow> v / (sqrt v + 1 / 10 ^ 6)\<^sup>2 = 0)
    \<and> (0 < v \<longrightarrow>
          mean_of (map (\<lambda>p. (real (unat p) / 255 - m) / sqrt v) (elems img)) = 0
        \<and> variance_of (map (\<lambda>p. (real (unat p) / 255 - m) / sqrt v) (elems img)) = 1)"
proof -
  let ?xs = "scaled_pixels img"
  let ?m = "mean_of ?xs" and ?v = "variance_of ?xs"
  let ?out = "\<lparr>shape = shape img @ [1], elems = standardize ?xs\<rparr>"
  have ne: "?xs \<noteq> []" using assms(3) by (simp add: scaled_pixels_def)
  have len: "length (standardize ?xs) = prod_list (shape img)"
    using assms(2) by (simp add: standardize_def scaled_pixels_def wf_tensor_def)
  have 1: "tf_nn_moments (tf_divide_scalar (tf_cast_float32 img) 255) 3
        = Inr (\<lparr>shape = [], elems = [?m]\<rparr>, \<lparr>shape = [], elems = [?v]\<rparr>)"
    by (rule scaled_moments_rank3 [OF assms(1,2)])
  have 2: "elems (tf_divide_scalar (tf_cast_float32 img) 255)
        = map (\<lambda>p. real (unat p) / 255) (elems img)"
    by (simp add: tf_divide_scalar_def tf_cast_float32_def)
  have 3: "\<forall>x \<in> set (elems (tf_divide_scalar (tf_cast_float32 img) 255)). 0 \<le> x \<and> x \<le> 1"
    using scaled_pixels_range [of _ img]
    by (simp add: tf_divide_scalar_def tf_cast_float32_def scaled_pixels_def)
  have 4: "normalize_img img l = Inr (?out, tf_one_hot l NUM_CLASSES)"
    by (rule normalize_img_rank3 [OF assms(1,2)])
  have 5: "elems ?out = map (\<lambda>p. (real (unat p) / 255 - ?m) / (sqrt ?v + 1 / 10 ^ 6)) (elems img)"
    by (simp add: standardize_def) (simp add: scaled_pixels_def)
  have 6: "tf_nn_moments ?out 3
        = Inr (\<lparr>shape = [1], elems = [0]\<rparr>,
               \<lparr>shape = [1], elems = [?v / (sqrt ?v + 1 / 10 ^ 6)\<^sup>2]\<rparr>)"
    using output_moments_rank3 [OF assms(1) len]
    by (simp add: mean_of_standardize [OF ne] variance_of_standardize [OF ne])
  note 7 = variance_ratio_less_one [OF variance_of_nonneg [of ?xs]]
  have 8: "?v = 0 \<longrightarrow> ?v / (sqrt ?v + 1 / 10 ^ 6)\<^sup>2 = 0" by simp
  have 9: "0 < ?v \<longrightarrow>
          mean_of (map (\<lambda>p. (real (unat p) / 255 - ?m) / sqrt ?v) (elems img)) = 0
        \<and> variance_of (map (\<lambda>p. (real (unat p) / 255 - ?m) / sqrt ?v) (elems img)) = 1"
  proof
    assume pos: "0 < ?v"
    have "map (\<lambda>p. (real (unat p) / 255 - ?m) / sqrt ?v) (elems img)
        = map (\<lambda>x. (x - ?m) / sqrt ?v) ?xs"
      by (simp add: scaled_pixels_def)
    with variance_of_unit_scaling [OF ne pos]
    show "mean_of (map (\<lambda>p. (real (unat p) / 255 - ?m) / sqrt ?v) (elems img)) = 0
        \<and> variance_of (map (\<lambda>p. (real (unat p) / 255 - ?m) / sqrt ?v) (elems img)) = 1"
      by simp
  qed
  from 1 2 3 4 5 6 7 8 9 show ?thesis by blast
qed


lemma two_pixel_facts:
  "length (shape two_pixel_image) = 3" "wf_tensor two_pixel_image" "elems two_pixel_image \<noteq> []"
  "scaled_pixels two_pixel_image = [0, 1]"
  by (simp_all add: two_pixel_image_def wf_tensor_def scaled_pixels_def)

lemma two_pixel_moments:
  "mean_of [0, 1] = 1 / 2" "variance_of [0, 1] = 1 / 4"
  by (simp_all add: mean_of_def variance_of_def power2_eq_square)

theorem denominator_strictly_positive_witness:
  "3 \<le> length (shape two_pixel_image) \<and> wf_tensor two_pixel_image \<and> elems two_pixel_image \<noteq> []
   \<and> std_denominators two_pixel_image = Inr [sqrt (1 / 4) + 1 / 10 ^ 6]
   \<and> 0 < sqrt (1 / 4) + 1 / (10 ^ 6 :: real)"
proof -
  have r: "3 \<le> length (shape two_pixel_image)" using two_pixel_facts(1) by simp
  from denominator_strictly_positive [OF r two_pixel_facts(2,3), of 0]
  obtain ds where ds: "std_denominators two_pixel_image = Inr ds" and pos: "\<forall>d \<in> set ds. 0 < d"
    by blast
  have eq: "std_denominators two_pixel_image = Inr [sqrt (1 / 4) + 1 / 10 ^ 6]"
    using std_denominators_eq [OF scaled_moments_rank3 [OF two_pixel_facts(1,2)]]
    by (simp add: two_pixel_facts(4) two_pixel_moments)
  with ds have "ds = [sqrt (1 / 4) + 1 / 10 ^ 6]" by simp
  with pos have "0 < sqrt (1 / 4) + 1 / (10 ^ 6 :: real)" by simp
  with eq r two_pixel_facts(2,3) show ?thesis by blast
qed

lemma zero_image_facts:
  "length (shape zero_image) = 3" "wf_tensor zero_image" "elems zero_image \<noteq> []"
  "\<forall>p \<in> set (elems zero_image). p = 0" "shape zero_image = [28, 28, 1]"
  "length (elems zero_image) = 784"
  by (simp_all add: zero_image_def wf_tensor_def)

lemma zero_image_normalized:
  "normalize_img zero_image l
     = Inr (\<lparr>shape = [28, 28, 1, 1], elems = replicate 784 0\<rparr>, tf_one_hot l NUM_CLASSES)"
proof -
  have ne: "scaled_pixels zero_image \<noteq> []"
    and const: "\<forall>v \<in> set (scaled_pixels zero_image). v = 0"
    and len: "length (scaled_pixels zero_image) = 784"
    by (simp_all add: scaled_pixels_def zero_image_def)
  from constant_moments(3) [OF ne const] len
  have "standardize (scaled_pixels zero_image) = replicate 784 0" by simp
  with normalize_img_rank3 [OF zero_image_facts(1,2), of l] show ?thesis
    by (simp add: zero_image_facts(5))
qed

text \<open>
  Claim C2 says that the image tensor returned by the per-sample transform has shape 28 by
  28 by 1, the model's declared input shape. The transform reduces over
  \<open>axes=[0, 1, 2]\<close>, so it rejects an image of fewer than three axes, and it appends one
  more axis to the image it is given: its output has at least four axes and never the
  shape \<^verbatim>\<open>INPUT_SHAPE\<close>. On an image of the dataset's shape 28 by 28 by 1 (here the all-zero
  one) the output has shape 28 by 28 by 1 by 1.
\<close>

theorem normalize_img_output_shape:
  "(case normalize_img img l of
      Inl e \<Rightarrow> length (shape img) < 3
    | Inr (out, lab) \<Rightarrow>
        3 \<le> length (shape img) \<and> shape out = shape img @ [1] \<and> shape out \<noteq> INPUT_SHAPE)
   \<and> shape zero_image = INPUT_SHAPE
   \<and> shape (fst (projr (normalize_img zero_image 0))) = [28, 28, 1, 1]
   \<and> [28, 28, 1, 1] \<noteq> INPUT_SHAPE"
proof -
  have "length (shape img) < 3" if "normalize_img img l = Inl e" for e
    using that normalize_img_error_iff [of img l] by blast
  moreover have "3 \<le> length (shape img) \<and> shape out = shape img @ [1] \<and> shape out \<noteq> INPUT_SHAPE"
    if "normalize_img img l = Inr (out, lab)" for out lab
  proof -
    from normalize_img_shape [OF that]
    have sh: "shape out = shape img @ [1]" and r: "3 \<le> length (shape img)" by simp_all
    then have "length (shape out) \<noteq> length INPUT_SHAPE" by (simp add: INPUT_SHAPE_def)
    then have "shape out \<noteq> INPUT_SHAPE" by auto
    with sh r show ?thesis by simp
  qed
  ultimately have "case normalize_img img l of
      Inl e \<Rightarrow> length (shape img) < 3
    | Inr (out, lab) \<Rightarrow>
        3 \<le> length (shape img) \<and> shape out = shape img @ [1] \<and> shape out \<noteq> INPUT_SHAPE"
    by (auto split: sum.splits)
  then show ?thesis
    by (simp add: zero_image_normalized zero_image_facts(5) INPUT_SHAPE_def)
qed

section \<open>Properties of the per-sample transform in binary32 arithmetic\<close>

text \<open>Powers of two and rounding.\<close>

lemma pow2_powr: "pow2 e = 2 powr of_int e"
  by (simp add: pow2_def powr_real_of_int inverse_eq_divide)

lemma pow2_pos: "0 < pow2 e"
  by (simp add: pow2_powr)

lemma pow2_add: "pow2 a * pow2 b = pow2 (a + b)"
  by (simp add: pow2_powr powr_add)

lemma pow2_mono: "a \<le> b \<Longrightarrow> pow2 a \<le> pow2 b"
  by (simp add: pow2_powr)

lemma round_half_even_of_int: "round_half_even (of_int z) = z"
  by (simp add: round_half_even_def)


lemma round_half_even_ge:
  assumes "of_int N \<le> y"
  shows "N \<le> round_half_even y"
proof -
  from assms have "N \<le> \<lfloor>y\<rfloor>" by (simp add: le_floor_iff)
  then show ?thesis by (auto simp: round_half_even_def Let_def)
qed

lemma f32_round_zero: "f32_round 0 = 0"
  by (simp add: f32_round_def)

lemma f32_round_nonneg:
  assumes "0 \<le> x"
  shows "0 \<le> f32_round x"
proof (cases "x = 0")
  case True
  then show ?thesis by (simp add: f32_round_zero)
next
  case False
  define e where "e = max \<lfloor>log 2 \<bar>x\<bar>\<rfloor> (- 126)"
  have "of_int 0 \<le> x * pow2 (23 - e)" using assms pow2_pos [of "23 - e"] by simp
  then have "0 \<le> round_half_even (x * pow2 (23 - e))" by (rule round_half_even_ge)
  then have "0 \<le> of_int (round_half_even (x * pow2 (23 - e))) * pow2 (e - 23)"
    using pow2_pos [of "e - 23"] by simp
  with False show ?thesis by (simp add: f32_round_def Let_def e_def)
qed


lemma f32_round_eval:
  assumes "pow2 e \<le> \<bar>x\<bar>" and "\<bar>x\<bar> < pow2 (e + 1)" and "- 126 \<le> e"
  shows "f32_round x = of_int (round_half_even (x * pow2 (23 - e))) * pow2 (e - 23)"
proof -
  from assms(1) pow2_pos [of e] have pos: "0 < \<bar>x\<bar>" by simp
  have "\<lfloor>log 2 \<bar>x\<bar>\<rfloor> = e"
    using assms(1,2) pos by (simp add: floor_log_eq_powr_iff pow2_powr)
  with assms(3) pos show ?thesis by (simp add: f32_round_def Let_def max_def)
qed

lemma f32_round_255: "f32_round 255 = 255"
  by (subst f32_round_eval [of 7]) (simp_all add: pow2_def round_half_even_def)

lemma f32_eps: "f32_round (1 / 10 ^ 6) = 8796093 / 2 ^ 43"
  by (subst f32_round_eval [of "- 20"]) (simp_all add: pow2_def round_half_even_def)

lemma f32_eps_fixed: "f32_round (8796093 / 2 ^ 43) = 8796093 / 2 ^ 43"
  by (subst f32_round_eval [of "- 20"]) (simp_all add: pow2_def round_half_even_def)

lemma f32_round_ge_pow2:
  assumes "pow2 k \<le> x" and "- 126 \<le> k"
  shows "pow2 k \<le> f32_round x"
proof -
  from assms(1) pow2_pos [of k] have pos: "0 < x" by simp
  define e where "e = \<lfloor>log 2 x\<rfloor>"
  have br: "pow2 e \<le> x" "x < pow2 (e + 1)"
    using floor_log_eq_powr_iff [of x 2 e] pos by (simp_all add: e_def pow2_powr)
  have "2 powr of_int k \<le> x" using assms(1) by (simp only: pow2_powr)
  then have "of_int k \<le> log 2 x" using pos by (simp add: le_log_iff)
  then have ke: "k \<le> e" by (simp add: e_def le_floor_iff)
  with assms(2) have e126: "- 126 \<le> e" by simp
  have abs: "\<bar>x\<bar> = x" using pos by simp
  have ev: "f32_round x = of_int (round_half_even (x * pow2 (23 - e))) * pow2 (e - 23)"
    using f32_round_eval [of e x] br e126 by (simp add: abs)
  have "pow2 e * pow2 (23 - e) \<le> x * pow2 (23 - e)"
    using br(1) pow2_pos [of "23 - e"] by simp
  moreover have "pow2 e * pow2 (23 - e) = of_int (2 ^ 23)"
    by (simp add: pow2_add) (simp add: pow2_def)
  ultimately have "of_int (2 ^ 23) \<le> x * pow2 (23 - e)" by simp
  then have "2 ^ 23 \<le> round_half_even (x * pow2 (23 - e))" by (rule round_half_even_ge)
  then have "real_of_int (2 ^ 23) \<le> of_int (round_half_even (x * pow2 (23 - e)))"
    by (simp only: of_int_le_iff)
  then have "of_int (2 ^ 23) * pow2 (e - 23)
      \<le> of_int (round_half_even (x * pow2 (23 - e))) * pow2 (e - 23)"
    using pow2_pos [of "e - 23"] by simp
  moreover have "of_int (2 ^ 23) * pow2 (e - 23) = pow2 e"
  proof -
    have "real_of_int (2 ^ 23) = pow2 23" by (simp add: pow2_def)
    moreover have "pow2 23 * pow2 (e - 23) = pow2 e" by (simp add: pow2_add)
    ultimately show ?thesis by (simp only:)
  qed
  ultimately have "pow2 e \<le> f32_round x" unfolding ev by simp
  with pow2_mono [OF ke] show ?thesis by simp
qed

lemma f32_round_nat:
  assumes "0 < j" and "j \<le> 2 ^ 24"
  shows "f32_round (real j) = real j"
proof -
  define e where "e = \<lfloor>log 2 (real j)\<rfloor>"
  have pos: "0 < real j" using assms(1) by simp
  have br: "pow2 e \<le> real j" "real j < pow2 (e + 1)"
    using floor_log_eq_powr_iff [of "real j" 2 e] pos by (simp_all add: e_def pow2_powr)
  have "1 \<le> real j" using assms(1) by simp
  then have "0 \<le> log 2 (real j)" by simp
  then have e0: "0 \<le> e" by (simp add: e_def)
  have "real j \<le> 2 ^ 24" using assms(2) of_nat_mono [of j "2 ^ 24"] by simp
  moreover have "pow2 24 = 2 ^ 24" by (simp add: pow2_def)
  ultimately have "pow2 e \<le> pow2 24" using br(1) by simp
  then have "2 powr of_int e \<le> (2::real) powr of_int 24" by (simp only: pow2_powr)
  then have "real_of_int e \<le> of_int 24"
    by (simp only: powr_le_cancel_iff one_less_numeral_iff semiring_norm)
  then have e24: "e \<le> 24" by simp
  have abs: "\<bar>real j\<bar> = real j" by simp
  have ev: "f32_round (real j)
      = of_int (round_half_even (real j * pow2 (23 - e))) * pow2 (e - 23)"
    using f32_round_eval [of e "real j"] br e0 by (simp add: abs)
  show ?thesis
  proof (cases "e = 24")
    case True
    with br(1) \<open>real j \<le> 2 ^ 24\<close> have "real j = 2 ^ 24" by (simp add: pow2_def)
    then show ?thesis
      unfolding ev True by (simp add: pow2_def round_half_even_def)
  next
    case False
    with e24 have k: "0 \<le> 23 - e" by simp
    then have "real j * pow2 (23 - e) = of_int (int j * 2 ^ nat (23 - e))"
      by (simp add: pow2_def)
    then have "of_int (round_half_even (real j * pow2 (23 - e)))
        = real j * pow2 (23 - e)"
      by (simp only: round_half_even_of_int)
    then have "f32_round (real j) = real j * (pow2 (23 - e) * pow2 (e - 23))"
      unfolding ev by simp
    also have "pow2 (23 - e) * pow2 (e - 23) = 1" by (simp add: pow2_add) (simp add: pow2_def)
    finally show ?thesis by simp
  qed
qed

lemma f32_round_one: "f32_round 1 = 1"
  using f32_round_nat [of 1] by simp

lemma addends_nonempty: "0 < length (addends p)"
  by (induction p) simp_all

lemma sums_all_addends:
  assumes "sums_all p n"
  shows "set (addends p) = {0..<n}" and "length (addends p) = n"
proof -
  from assms have eq: "sort (addends p) = [0..<n]" by (simp only: sums_all_def)
  have "set (sort (addends p)) = set (addends p)" by simp
  with eq show "set (addends p) = {0..<n}" by simp
  have "length (sort (addends p)) = length (addends p)" by simp
  with eq show "length (addends p) = n" by simp
qed

lemma addends_sequential: "addends (sequential k) = [0..<Suc k]"
  by (induction k) simp_all

lemma sums_all_sequential: "sums_all (sequential k) (Suc k)"
  by (simp only: sums_all_def addends_sequential sort_upt)

lemma f32_reduce_zeros:
  "\<forall>i \<in> set (addends p). i < n \<Longrightarrow> f32_reduce p (replicate n 0) = 0"
  by (induction p) (simp_all add: f32_add_def f32_round_zero)

lemma f32_reduce_nonneg:
  "\<forall>i \<in> set (addends p). i < length xs \<Longrightarrow> \<forall>x \<in> set xs. 0 \<le> x \<Longrightarrow> 0 \<le> f32_reduce p xs"
  by (induction p) (simp_all add: f32_add_def f32_round_nonneg)

lemma f32_reduce_ones:
  "\<forall>i \<in> set (addends p). i < n \<Longrightarrow> length (addends p) \<le> 2 ^ 24
     \<Longrightarrow> f32_reduce p (replicate n 1) = real (length (addends p))"
proof (induction p)
  case (Elem i)
  then show ?case by simp
next
  case (Add l r)
  let ?a = "length (addends l)" and ?b = "length (addends r)"
  from Add.prems have "?a + ?b \<le> 2 ^ 24" by simp
  moreover have "0 < ?a + ?b" using addends_nonempty [of l] by simp
  ultimately have "f32_round (real (?a + ?b)) = real (?a + ?b)" by (rule f32_round_nat [rotated])
  with Add show ?case by (simp add: f32_add_def)
qed

lemma f32_sum_zeros:
  assumes "sums_all p n"
  shows "f32_sum p (replicate n 0) = 0"
  using f32_reduce_zeros [of p n] sums_all_addends(1) [OF assms] by (simp add: f32_sum_def)

lemma f32_sum_nonneg:
  assumes "sums_all p (length xs)" and "\<forall>x \<in> set xs. 0 \<le> x"
  shows "0 \<le> f32_sum p xs"
  using f32_reduce_nonneg [of p xs] sums_all_addends(1) [OF assms(1)] assms(2)
  by (simp add: f32_sum_def)

lemma f32_sum_ones:
  assumes "sums_all p n" and "n \<le> 2 ^ 24"
  shows "f32_sum p (replicate n 1) = real n"
  using f32_reduce_ones [of p n] sums_all_addends [OF assms(1)] assms(2)
  by (simp add: f32_sum_def)

lemma mean_f32_zeros:
  assumes "sums_all p n"
  shows "mean_f32 p (replicate n 0) = 0"
  by (simp add: mean_f32_def f32_sum_zeros [OF assms] f32_div_def f32_round_zero)

lemma mean_f32_ones:
  assumes "sums_all p n" and "0 < n" and "n \<le> 2 ^ 24"
  shows "mean_f32 p (replicate n 1) = 1"
  using assms(2,3)
  by (simp add: mean_f32_def f32_sum_ones [OF assms(1,3)] f32_div_def f32_round_nat f32_round_one)

lemma mean_f32_nonneg:
  assumes "sums_all p (length xs)" and "\<forall>x \<in> set xs. 0 \<le> x"
  shows "0 \<le> mean_f32 p xs"
proof -
  have "0 \<le> f32_sum p xs" by (rule f32_sum_nonneg [OF assms])
  moreover have "0 \<le> f32_round (real (length xs))" by (simp add: f32_round_nonneg)
  ultimately show ?thesis by (simp add: mean_f32_def f32_div_def f32_round_nonneg)
qed

lemma variance_f32_nonneg:
  assumes "sums_all pv (length xs)"
  shows "0 \<le> variance_f32 pm pv xs"
  unfolding variance_f32_def
  by (rule mean_f32_nonneg) (simp_all add: assms f32_mul_def f32_round_nonneg)

lemma denominator_f32_pos:
  assumes "sums_all pv (length xs)"
  shows "1 / 2 ^ 20 \<le> denominator_f32 pm pv xs"
proof -
  have "0 \<le> f32_sqrt (variance_f32 pm pv xs)"
    using variance_f32_nonneg [OF assms, of pm] by (simp add: f32_sqrt_def f32_round_nonneg)
  moreover have "pow2 (- 20) \<le> 8796093 / 2 ^ 43" by (simp add: pow2_def)
  ultimately have "pow2 (- 20) \<le> f32_sqrt (variance_f32 pm pv xs) + 8796093 / 2 ^ 43" by simp
  then have "pow2 (- 20) \<le> f32_round (f32_sqrt (variance_f32 pm pv xs) + 8796093 / 2 ^ 43)"
    by (rule f32_round_ge_pow2) simp
  moreover have "pow2 (- 20) = 1 / 2 ^ 20" by (simp add: pow2_def)
  ultimately show ?thesis by (simp only: denominator_f32_def f32_add_def f32_eps)
qed

lemma moments_f32_flat:
  assumes "k \<le> length (shape x)" and "prod_list (drop k (shape x)) = 1" and "wf_tensor x"
  shows "tf_nn_moments_f32 pm pv x k =
    Inr (\<lparr>shape = drop k (shape x), elems = [mean_f32 pm (elems x)]\<rparr>,
         \<lparr>shape = drop k (shape x), elems = [variance_f32 pm pv (elems x)]\<rparr>)"
proof -
  have n: "prod_list (take k (shape x)) = length (elems x)"
    using prod_list_take_drop [of k "shape x"] assms(2,3) by (simp add: wf_tensor_def)
  show ?thesis
    using assms(1)
    by (simp add: tf_nn_moments_f32_def Let_def n assms(2) reduced_column_flat mean_f32_def
        variance_f32_def)
qed

lemma scaled_f32:
  "shape (tf_divide_scalar_f32 (tf_cast_float32 img) 255) = shape img"
  "elems (tf_divide_scalar_f32 (tf_cast_float32 img) 255) = scaled_pixels_f32 img"
  by (simp_all add: tf_divide_scalar_f32_def tf_cast_float32_def scaled_pixels_f32_def
      f32_div_def f32_round_255)

lemma scaled_moments_f32_rank3:
  assumes "length (shape img) = 3" and "wf_tensor img"
  shows "tf_nn_moments_f32 pm pv (tf_divide_scalar_f32 (tf_cast_float32 img) 255) 3 =
    Inr (\<lparr>shape = [], elems = [mean_f32 pm (scaled_pixels_f32 img)]\<rparr>,
         \<lparr>shape = [], elems = [variance_f32 pm pv (scaled_pixels_f32 img)]\<rparr>)"
proof -
  let ?x = "tf_divide_scalar_f32 (tf_cast_float32 img) 255"
  have wf: "wf_tensor ?x"
    using assms(2) by (simp add: wf_tensor_def scaled_f32 scaled_pixels_f32_def)
  show ?thesis using moments_f32_flat [of 3 ?x] wf assms(1) by (simp add: scaled_f32)
qed

lemma normalize_img_f32_rank3:
  assumes "length (shape img) = 3" and "wf_tensor img"
  shows "normalize_img_f32 pm pv img l =
     Inr (\<lparr>shape = shape img @ [1], elems = standardize_f32 pm pv (scaled_pixels_f32 img)\<rparr>,
          tf_one_hot l NUM_CLASSES)"
  using scaled_moments_f32_rank3 [OF assms]
  by (simp add: normalize_img_f32_def Let_def tf_sqrt_f32_def tf_add_scalar_f32_def
      broadcast_scalar tf_expand_dims_last_def scaled_f32 standardize_f32_def denominator_f32_def)

lemma normalize_img_f32_label:
  assumes "3 \<le> length (shape img)"
  shows "\<exists>out. normalize_img_f32 pm pv img l = Inr (out, tf_one_hot l NUM_CLASSES)"
  using assms by (simp add: normalize_img_f32_def tf_nn_moments_f32_def Let_def scaled_f32(1))


lemma standardize_f32_constant:
  assumes "\<forall>v \<in> set xs. v = a"
  shows "standardize_f32 pm pv xs
    = replicate (length xs) (f32_div (f32_sub a (mean_f32 pm xs)) (denominator_f32 pm pv xs))"
proof -
  have "map (\<lambda>v. f32_div (f32_sub v (mean_f32 pm xs)) (denominator_f32 pm pv xs)) xs
      = map (\<lambda>v. f32_div (f32_sub a (mean_f32 pm xs)) (denominator_f32 pm pv xs)) xs"
    using assms by (intro map_cong) simp_all
  then show ?thesis by (simp add: standardize_f32_def map_replicate_const)
qed

lemma variance_of_replicate: "variance_of (replicate n k) = 0"
proof (cases n)
  case 0
  then show ?thesis by (simp add: variance_of_def mean_of_def)
next
  case (Suc m)
  then have "replicate n k \<noteq> []" and "\<forall>v \<in> set (replicate n k). v = k" by simp_all
  from constant_moments(2) [OF this] show ?thesis .
qed

lemma standardize_f32_exact_mean:
  assumes "\<forall>v \<in> set xs. v = a" and "mean_f32 pm xs = a" and "sums_all pv (length xs)"
  shows "variance_f32 pm pv xs = 0"
    and "denominator_f32 pm pv xs = 8796093 / 2 ^ 43"
    and "standardize_f32 pm pv xs = replicate (length xs) 0"
proof -
  have "map (\<lambda>v. f32_mul (f32_sub v (mean_f32 pm xs)) (f32_sub v (mean_f32 pm xs))) xs
      = map (\<lambda>v. 0) xs"
    using assms(1,2) by (intro map_cong) (simp_all add: f32_sub_def f32_mul_def f32_round_zero)
  then show v: "variance_f32 pm pv xs = 0"
    using mean_f32_zeros [OF assms(3)] by (simp add: variance_f32_def map_replicate_const)
  have "denominator_f32 pm pv xs = f32_round (0 + 8796093 / 2 ^ 43)"
    by (simp only: denominator_f32_def v f32_add_def f32_sqrt_def real_sqrt_zero f32_round_zero
        f32_eps)
  then show d: "denominator_f32 pm pv xs = 8796093 / 2 ^ 43"
    by (simp only: add_0 f32_eps_fixed)
  show "standardize_f32 pm pv xs = replicate (length xs) 0"
    unfolding standardize_f32_constant [OF assms(1)] d
    by (simp add: assms(2) f32_sub_def f32_div_def f32_round_zero)
qed


lemma f32_add_commute: "f32_add a b = f32_add b a"
  by (simp add: f32_add_def add.commute)

lemma f32_reduce_constant_1:
  assumes "\<forall>i \<in> set (addends p). i < n" and "length (addends p) = 1"
  shows "f32_reduce p (replicate n a) = a"
proof (cases p)
  case (Elem i)
  with assms(1) show ?thesis by simp
next
  case (Add l r)
  with assms(2) addends_nonempty [of l] addends_nonempty [of r] show ?thesis by simp
qed

lemma f32_reduce_constant_2:
  assumes "\<forall>i \<in> set (addends p). i < n" and "length (addends p) = 2"
  shows "f32_reduce p (replicate n a) = f32_add a a"
proof (cases p)
  case (Elem i)
  with assms(2) show ?thesis by simp
next
  case (Add l r)
  from Add assms(2) have "length (addends l) + length (addends r) = 2" by simp
  with addends_nonempty [of l] addends_nonempty [of r]
  have "length (addends l) = 1" and "length (addends r) = 1" by linarith+
  moreover from Add assms(1)
  have "\<forall>i \<in> set (addends l). i < n" and "\<forall>i \<in> set (addends r). i < n" by simp_all
  ultimately show ?thesis
    using Add by (simp add: f32_reduce_constant_1)
qed

lemma f32_reduce_constant_3:
  assumes "\<forall>i \<in> set (addends p). i < n" and "length (addends p) = 3"
  shows "f32_reduce p (replicate n a) = f32_add (f32_add a a) a"
proof (cases p)
  case (Elem i)
  with assms(2) show ?thesis by simp
next
  case (Add l r)
  from Add assms(1)
  have lr: "\<forall>i \<in> set (addends l). i < n" "\<forall>i \<in> set (addends r). i < n" by simp_all
  from Add assms(2) have "length (addends l) + length (addends r) = 3" by simp
  with addends_nonempty [of l] addends_nonempty [of r]
  have "length (addends l) = 1 \<and> length (addends r) = 2
      \<or> length (addends l) = 2 \<and> length (addends r) = 1"
    by arith
  then consider "length (addends l) = 1" and "length (addends r) = 2"
    | "length (addends l) = 2" and "length (addends r) = 1"
    by blast
  then show ?thesis
  proof cases
    case 1
    with lr have "f32_reduce l (replicate n a) = a"
      and "f32_reduce r (replicate n a) = f32_add a a"
      by (simp_all add: f32_reduce_constant_1 f32_reduce_constant_2)
    with Add have "f32_reduce p (replicate n a) = f32_add a (f32_add a a)" by simp
    also have "\<dots> = f32_add (f32_add a a) a" by (rule f32_add_commute)
    finally show ?thesis .
  next
    case 2
    with lr Add show ?thesis
      by (simp add: f32_reduce_constant_1 f32_reduce_constant_2)
  qed
qed

lemma f32_sum_constant_3:
  assumes "sums_all p 3"
  shows "f32_sum p (replicate 3 a) = f32_add (f32_add a a) a"
  using f32_reduce_constant_3 [of p 3 a] sums_all_addends [OF assms]
  by (simp add: f32_sum_def)

lemma f32_round_3: "f32_round (real (length (replicate 3 (a::real)))) = 3"
  using f32_round_nat [of 3] by simp

lemma gray173_facts:
  "length (shape gray173_image) = 3" "wf_tensor gray173_image" "elems gray173_image \<noteq> []"
  "\<forall>p \<in> set (elems gray173_image). p = 173" "shape gray173_image = [1, 3, 1]"
  "length (elems gray173_image) = 3"
  by (simp_all add: gray173_image_def wf_tensor_def)

lemma gray173_scaled: "scaled_pixels_f32 gray173_image = replicate 3 (11382190 / 2 ^ 24)"
proof -
  have "f32_round (173 / 255) = 11382190 / 2 ^ 24"
    by (subst f32_round_eval [of "- 1"]) (simp_all add: pow2_def round_half_even_def)
  then show ?thesis
    by (simp add: scaled_pixels_f32_def gray173_image_def numeral_3_eq_3)
qed

lemma gray173_mean:
  assumes "sums_all pm 3"
  shows "mean_f32 pm (replicate 3 (11382190 / 2 ^ 24)) = 11382189 / 2 ^ 24"
proof -
  define a :: real where "a = 11382190 / 2 ^ 24"
  have s2: "f32_add a a = 11382190 / 2 ^ 23"
    unfolding f32_add_def a_def
    by (subst f32_round_eval [of 0]) (simp_all add: pow2_def round_half_even_def)
  have s3: "f32_add (11382190 / 2 ^ 23) a = 8536642 / 2 ^ 22"
    unfolding f32_add_def a_def
    by (subst f32_round_eval [of 1]) (simp_all add: pow2_def round_half_even_def)
  have sum: "f32_sum pm (replicate 3 a) = 8536642 / 2 ^ 22"
    by (simp only: f32_sum_constant_3 [OF assms] s2 s3)
  have "f32_div (8536642 / 2 ^ 22) 3 = 11382189 / 2 ^ 24"
    unfolding f32_div_def
    by (subst f32_round_eval [of "- 1"]) (simp_all add: pow2_def round_half_even_def)
  then show ?thesis
    unfolding a_def [symmetric] by (simp only: mean_f32_def sum f32_round_3)
qed

lemma gray173_variance:
  assumes "sums_all pm 3" and "sums_all pv 3"
  shows "variance_f32 pm pv (replicate 3 (11382190 / 2 ^ 24)) = 1 / 2 ^ 48"
proof -
  define a :: real where "a = 11382190 / 2 ^ 24"
  define q :: real where "q = 1 / 2 ^ 48"
  have d: "f32_sub a (11382189 / 2 ^ 24) = 1 / 2 ^ 24"
    unfolding f32_sub_def a_def
    by (subst f32_round_eval [of "- 24"]) (simp_all add: pow2_def round_half_even_def)
  have m: "f32_mul (1 / 2 ^ 24) (1 / 2 ^ 24) = q"
    unfolding f32_mul_def q_def
    by (subst f32_round_eval [of "- 48"]) (simp_all add: pow2_def round_half_even_def)
  have s2: "f32_add q q = 1 / 2 ^ 47"
    unfolding f32_add_def q_def
    by (subst f32_round_eval [of "- 47"]) (simp_all add: pow2_def round_half_even_def)
  have s3: "f32_add (1 / 2 ^ 47) q = 3 / 2 ^ 48"
    unfolding f32_add_def q_def
    by (subst f32_round_eval [of "- 47"]) (simp_all add: pow2_def round_half_even_def)
  have sum: "f32_sum pv (replicate 3 q) = 3 / 2 ^ 48"
    by (simp only: f32_sum_constant_3 [OF assms(2)] s2 s3)
  have dv: "f32_div (3 / 2 ^ 48) 3 = q"
    unfolding f32_div_def q_def
    by (subst f32_round_eval [of "- 48"]) (simp_all add: pow2_def round_half_even_def)
  have sq: "map (\<lambda>v. f32_mul (f32_sub v (mean_f32 pm (replicate 3 a)))
                       (f32_sub v (mean_f32 pm (replicate 3 a)))) (replicate 3 a)
      = replicate 3 q"
    unfolding a_def gray173_mean [OF assms(1)]
    by (simp only: map_replicate a_def [symmetric] d m)
  show ?thesis
    unfolding a_def [symmetric] variance_f32_def sq
    by (simp only: mean_f32_def sum f32_round_3 dv) (simp only: q_def)
qed

lemma gray173_denominator:
  assumes "sums_all pm 3" and "sums_all pv 3"
  shows "denominator_f32 pm pv (replicate 3 (11382190 / 2 ^ 24)) = 9320381 / 2 ^ 43"
proof -
  have "sqrt (1 / 2 ^ 48) = 1 / 2 ^ 24"
    by (rule real_sqrt_unique) (simp_all add: power2_eq_square)
  moreover have "f32_round (1 / 2 ^ 24) = 1 / 2 ^ 24"
    by (subst f32_round_eval [of "- 24"]) (simp_all add: pow2_def round_half_even_def)
  ultimately have std: "f32_sqrt (1 / 2 ^ 48) = 1 / 2 ^ 24" by (simp only: f32_sqrt_def)
  have "f32_round (1 / 2 ^ 24 + 8796093 / 2 ^ 43) = 9320381 / 2 ^ 43"
    by (subst f32_round_eval [of "- 20"]) (simp_all add: pow2_def round_half_even_def)
  then show ?thesis
    by (simp only: denominator_f32_def gray173_variance [OF assms] f32_add_def std f32_eps)
qed

lemma gray173_standardized:
  assumes "sums_all pm 3" and "sums_all pv 3"
  shows "standardize_f32 pm pv (replicate 3 (11382190 / 2 ^ 24))
    = replicate 3 (15099972 / 2 ^ 28)"
proof -
  define a :: real where "a = 11382190 / 2 ^ 24"
  have d: "f32_sub a (11382189 / 2 ^ 24) = 1 / 2 ^ 24"
    unfolding f32_sub_def a_def
    by (subst f32_round_eval [of "- 24"]) (simp_all add: pow2_def round_half_even_def)
  have q: "f32_div (1 / 2 ^ 24) (9320381 / 2 ^ 43) = 15099972 / 2 ^ 28"
    unfolding f32_div_def
    by (subst f32_round_eval [of "- 5"]) (simp_all add: pow2_def round_half_even_def)
  have "\<forall>v \<in> set (replicate 3 a). v = a" by simp
  from standardize_f32_constant [OF this, of pm pv]
  have "standardize_f32 pm pv (replicate 3 a)
      = replicate 3 (f32_div (f32_sub a (mean_f32 pm (replicate 3 a)))
           (denominator_f32 pm pv (replicate 3 a)))"
    by simp
  then show ?thesis
    unfolding a_def gray173_mean [OF assms(1)] gray173_denominator [OF assms]
    by (simp only: a_def [symmetric] d q)
qed

lemma gray173_normalized:
  assumes "sums_all pm 3" and "sums_all pv 3"
  shows "normalize_img_f32 pm pv gray173_image l
    = Inr (\<lparr>shape = [1, 3, 1, 1], elems = replicate 3 (15099972 / 2 ^ 28)\<rparr>,
           tf_one_hot l NUM_CLASSES)"
  using normalize_img_f32_rank3 [OF gray173_facts(1,2), of pm pv l]
  by (simp only: gray173_scaled gray173_standardized [OF assms] gray173_facts(5)) simp

lemma sequential_2: "sequential 2 = Add (Add (Elem 0) (Elem 1)) (Elem 2)"
  by (simp add: numeral_2_eq_2)

lemma sums_all_sequential_2: "sums_all (sequential 2) 3"
  using sums_all_sequential [of 2] by (simp add: numeral_3_eq_3)

lemma sums_all_sequential_783: "sums_all (sequential 783) 784"
  using sums_all_sequential [of 783] by simp












lemma constant_scaled_f32:
  assumes "\<forall>p \<in> set (elems img). p = c"
  shows "scaled_pixels_f32 img
    = replicate (length (elems img)) (f32_round (real (unat c) / 255))"
proof -
  have "map (\<lambda>p. f32_round (real (unat p) / 255)) (elems img)
      = map (\<lambda>p. f32_round (real (unat c) / 255)) (elems img)"
    using assms by (intro map_cong) simp_all
  then show ?thesis by (simp add: scaled_pixels_f32_def map_replicate_const)
qed

lemma black_or_white_mean:
  assumes "sums_all pm n" and "0 < n" and "c = 0 \<or> c = 255 \<and> n \<le> 2 ^ 24"
  shows "f32_round (real (unat (c :: 8 word)) / 255) = real (unat c) / 255"
    and "mean_f32 pm (replicate n (f32_round (real (unat c) / 255))) = real (unat c) / 255"
  using assms(3) mean_f32_zeros [OF assms(1)] mean_f32_ones [OF assms(1,2)]
  by (auto simp: f32_round_zero f32_round_one)





text \<open>
  Claim C10, as the program has it. For every constant input image (three axes, at least
  one pixel, all pixel intensities equal to some \<open>c\<close>) and every order of the two sums of
  \<^verbatim>\<open>tf.nn.moments\<close>, the computed variance is not negative, the denominator of the
  division is at least \<open>2\<^bsup>-20\<^esup>\<close>, not zero, and the per-sample transform returns an image
  whose elements are all equal to one number \<open>k\<close>, so that the variance of the result is 0
  rather than 1. When \<open>c\<close> is 0, or \<open>c\<close> is 255 and the image has at most \<open>2\<^bsup>24\<^esup>\<close> pixels,
  the computed mean is the scaled intensity itself, the computed variance is 0, the
  denominator is the binary32 number nearest to \<open>1e-6\<close>, and \<open>k = 0\<close>: the result is the
  all-zero image.
\<close>

theorem constant_image_float32:
  assumes "length (shape img) = 3" and "wf_tensor img" and "elems img \<noteq> []"
    and "\<forall>p \<in> set (elems img). p = c"
    and "sums_all pm (length (elems img))" and "sums_all pv (length (elems img))"
  shows "\<exists>m v d k.
      tf_nn_moments_f32 pm pv (tf_divide_scalar_f32 (tf_cast_float32 img) 255) 3
        = Inr (\<lparr>shape = [], elems = [m]\<rparr>, \<lparr>shape = [], elems = [v]\<rparr>)
    \<and> 0 \<le> v
    \<and> d = f32_add (f32_sqrt v) (f32_round (1 / 10 ^ 6))
    \<and> 1 / 2 ^ 20 \<le> d
    \<and> k = f32_div (f32_sub (f32_round (real (unat c) / 255)) m) d
    \<and> normalize_img_f32 pm pv img l
        = Inr (\<lparr>shape = shape img @ [1], elems = replicate (length (elems img)) k\<rparr>,
               tf_one_hot l NUM_CLASSES)
    \<and> variance_of (replicate (length (elems img)) k) = 0
    \<and> ((c = 0 \<or> c = 255 \<and> length (elems img) \<le> 2 ^ 24) \<longrightarrow>
          m = real (unat c) / 255 \<and> v = 0 \<and> d = 8796093 / 2 ^ 43 \<and> k = 0)"
proof -
  let ?n = "length (elems img)"
  let ?a = "f32_round (real (unat c) / 255)"
  let ?xs = "replicate ?n ?a"
  let ?m = "mean_f32 pm ?xs" and ?v = "variance_f32 pm pv ?xs"
  let ?d = "f32_add (f32_sqrt ?v) (f32_round (1 / 10 ^ 6))"
  let ?k = "f32_div (f32_sub ?a ?m) ?d"
  have sc: "scaled_pixels_f32 img = ?xs" by (rule constant_scaled_f32 [OF assms(4)])
  have n: "0 < ?n" using assms(3) by simp
  have const: "\<forall>x \<in> set ?xs. x = ?a" by simp
  have pv: "sums_all pv (length ?xs)" using assms(6) by simp
  have 1: "tf_nn_moments_f32 pm pv (tf_divide_scalar_f32 (tf_cast_float32 img) 255) 3
        = Inr (\<lparr>shape = [], elems = [?m]\<rparr>, \<lparr>shape = [], elems = [?v]\<rparr>)"
    using scaled_moments_f32_rank3 [OF assms(1,2), of pm pv] by (simp only: sc)
  have 2: "0 \<le> ?v" by (rule variance_f32_nonneg [OF pv])
  have 3: "1 / 2 ^ 20 \<le> ?d"
    using denominator_f32_pos [OF pv, of pm] by (simp only: denominator_f32_def)
  have st: "standardize_f32 pm pv ?xs = replicate ?n ?k"
    using standardize_f32_constant [OF const, of pm pv] by (simp add: denominator_f32_def)
  have 4: "normalize_img_f32 pm pv img l
        = Inr (\<lparr>shape = shape img @ [1], elems = replicate ?n ?k\<rparr>, tf_one_hot l NUM_CLASSES)"
    using normalize_img_f32_rank3 [OF assms(1,2), of pm pv l] by (simp only: sc st)
  have 5: "variance_of (replicate ?n ?k) = 0" by (rule variance_of_replicate)
  have 6: "(c = 0 \<or> c = 255 \<and> ?n \<le> 2 ^ 24) \<longrightarrow>
          ?m = real (unat c) / 255 \<and> ?v = 0 \<and> ?d = 8796093 / 2 ^ 43 \<and> ?k = 0"
  proof
    assume bw: "c = 0 \<or> c = 255 \<and> ?n \<le> 2 ^ 24"
    note a = black_or_white_mean [OF assms(5) n bw]
    from a have exact: "?m = ?a" by simp
    note e = standardize_f32_exact_mean [OF const exact pv]
    from e(2) have d: "?d = 8796093 / 2 ^ 43" by (simp only: denominator_f32_def)
    from e(3) st n have "replicate ?n ?k = replicate ?n 0" by simp
    with n have k: "?k = 0" by (cases ?n) simp_all
    from a(2) e(1) d k show "?m = real (unat c) / 255 \<and> ?v = 0 \<and> ?d = 8796093 / 2 ^ 43 \<and> ?k = 0"
      by blast
  qed
  from 1 2 3 4 5 6 show ?thesis by blast
qed

theorem constant_image_float32_witness:
  "length (shape zero_image) = 3 \<and> wf_tensor zero_image \<and> elems zero_image \<noteq> []
   \<and> elems zero_image = replicate 784 0
   \<and> sums_all (sequential 783) (length (elems zero_image))
   \<and> ((0 :: 8 word) = 0 \<or> (0 :: 8 word) = 255 \<and> length (elems zero_image) \<le> 2 ^ 24)
   \<and> tf_nn_moments_f32 (sequential 783) (sequential 783)
        (tf_divide_scalar_f32 (tf_cast_float32 zero_image) 255) 3
        = Inr (\<lparr>shape = [], elems = [0]\<rparr>, \<lparr>shape = [], elems = [0]\<rparr>)
   \<and> f32_add (f32_sqrt 0) (f32_round (1 / 10 ^ 6)) = 8796093 / 2 ^ 43
   \<and> normalize_img_f32 (sequential 783) (sequential 783) zero_image 0
        = Inr (\<lparr>shape = [28, 28, 1, 1], elems = replicate 784 0\<rparr>, tf_one_hot 0 NUM_CLASSES)
   \<and> variance_of (replicate 784 0) = 0"
proof -
  have s: "sums_all (sequential 783) (length (elems zero_image))"
    by (simp only: zero_image_facts(6) sums_all_sequential_783)
  from constant_image_float32 [OF zero_image_facts(1-4) s s, of 0]
  obtain m v d k where
    mv: "tf_nn_moments_f32 (sequential 783) (sequential 783)
        (tf_divide_scalar_f32 (tf_cast_float32 zero_image) 255) 3
        = Inr (\<lparr>shape = [], elems = [m]\<rparr>, \<lparr>shape = [], elems = [v]\<rparr>)"
    and d: "d = f32_add (f32_sqrt v) (f32_round (1 / 10 ^ 6))"
    and out: "normalize_img_f32 (sequential 783) (sequential 783) zero_image 0
        = Inr (\<lparr>shape = shape zero_image @ [1], elems = replicate (length (elems zero_image)) k\<rparr>,
               tf_one_hot 0 NUM_CLASSES)"
    and var: "variance_of (replicate (length (elems zero_image)) k) = 0"
    and bw: "m = real (unat (0 :: 8 word)) / 255 \<and> v = 0 \<and> d = 8796093 / 2 ^ 43 \<and> k = 0"
    by auto
  from bw have m: "m = 0" and v: "v = 0" and d': "d = 8796093 / 2 ^ 43" and k: "k = 0"
    by simp_all
  from mv have 1: "tf_nn_moments_f32 (sequential 783) (sequential 783)
        (tf_divide_scalar_f32 (tf_cast_float32 zero_image) 255) 3
        = Inr (\<lparr>shape = [], elems = [0]\<rparr>, \<lparr>shape = [], elems = [0]\<rparr>)"
    unfolding m v .
  from d d' have 2: "f32_add (f32_sqrt 0) (f32_round (1 / 10 ^ 6)) = 8796093 / 2 ^ 43"
    unfolding v by simp
  from out have 3: "normalize_img_f32 (sequential 783) (sequential 783) zero_image 0
        = Inr (\<lparr>shape = [28, 28, 1, 1], elems = replicate 784 0\<rparr>, tf_one_hot 0 NUM_CLASSES)"
    unfolding k by (simp add: zero_image_facts(5,6))
  from var have 4: "variance_of (replicate 784 0) = 0"
    unfolding k by (simp add: zero_image_facts(6))
  have rep: "elems zero_image = replicate 784 0" by (simp add: zero_image_def)
  from 1 2 3 4 s rep zero_image_facts(1-3) show ?thesis by simp
qed

text \<open>
  For other intensities the computed mean can differ from the scaled intensity, and then
  neither the computed variance nor the result is zero: on three pixels of intensity 173
  the computed variance is \<open>2\<^bsup>-48\<^esup>\<close> and every element of the result is
  \<open>15099972/2\<^bsup>28\<^esup>\<close>, about \<open>0.0563\<close>.
\<close>

theorem constant_image_float32_counterexample:
  "tf_nn_moments_f32 (sequential 2) (sequential 2)
      (tf_divide_scalar_f32 (tf_cast_float32 gray173_image) 255) 3
     = Inr (\<lparr>shape = [], elems = [11382189 / 2 ^ 24]\<rparr>, \<lparr>shape = [], elems = [1 / 2 ^ 48]\<rparr>)
   \<and> (1 / 2 ^ 48 :: real) \<noteq> 0
   \<and> normalize_img_f32 (sequential 2) (sequential 2) gray173_image 0
     = Inr (\<lparr>shape = [1, 3, 1, 1], elems = replicate 3 (15099972 / 2 ^ 28)\<rparr>,
            tf_one_hot 0 NUM_CLASSES)
   \<and> replicate 3 (15099972 / 2 ^ 28) \<noteq> replicate 3 (0 :: real)"
proof -
  note s = sums_all_sequential_2
  have 1: "tf_nn_moments_f32 (sequential 2) (sequential 2)
      (tf_divide_scalar_f32 (tf_cast_float32 gray173_image) 255) 3
     = Inr (\<lparr>shape = [], elems = [11382189 / 2 ^ 24]\<rparr>, \<lparr>shape = [], elems = [1 / 2 ^ 48]\<rparr>)"
    using scaled_moments_f32_rank3 [OF gray173_facts(1,2), of "sequential 2" "sequential 2"]
    by (simp only: gray173_scaled gray173_mean [OF s] gray173_variance [OF s s])
  have 2: "(1 / 2 ^ 48 :: real) \<noteq> 0" by simp
  have 3: "replicate 3 (15099972 / 2 ^ 28) \<noteq> replicate 3 (0 :: real)"
    by (simp add: numeral_3_eq_3)
  from 1 2 3 gray173_normalized [OF s s, of 0] show ?thesis by blast
qed

section \<open>The order of the samples in the pipelines\<close>

text \<open>
  Claim C7, as the program has it. The train pipeline applies, in order: the per-sample
  transform, in-memory caching, shuffling with buffer size 1000, batching into groups of
  128, and prefetching with a buffer size left to the framework
  (\<^verbatim>\<open>tf.data.AUTOTUNE\<close>, not a fixed one batch). The test pipeline applies the per-sample
  transform, batching (128), caching and prefetching (again \<^verbatim>\<open>AUTOTUNE\<close>), with no
  shuffle stage. The batches of either pipeline hold the preprocessed samples of their
  split, each once. The test samples after preprocessing are in their source order when
  the parallel calls of the transform complete in turn; the loader is called with
  \<^verbatim>\<open>shuffle_files=True\<close>, which leaves the order to the parallel calls.
\<close>

theorem pipeline_stages:
  "ops (fst (load_datasets raw_train raw_test choices))
     = [DsMap AUTOTUNE, DsCache, DsShuffle 1000, DsBatch 128, DsPrefetch AUTOTUNE]
   \<and> ops (snd (load_datasets raw_train raw_test choices))
     = [DsMap AUTOTUNE, DsBatch 128, DsCache, DsPrefetch AUTOTUNE]
   \<and> mset (concat (items (snd (load_datasets raw_train raw_test choices))))
     = mset (map (\<lambda>(img, label). normalize_img img label) raw_test)
   \<and> mset (concat (items (fst (load_datasets raw_train raw_test choices))))
     = mset (map (\<lambda>(img, label). normalize_img img label) raw_train)
   \<and> (test_completion choices = [] \<longrightarrow>
        concat (items (snd (load_datasets raw_train raw_test choices)))
          = map (\<lambda>(img, label). normalize_img img label) raw_test)"
proof -
  have pos: "0 < BATCH_SIZE" by (simp add: BATCH_SIZE_def)
  have test: "mset (concat (items (snd (load_datasets raw_train raw_test choices))))
     = mset (map (\<lambda>(img, label). normalize_img img label) raw_test)"
    by (simp add: load_datasets_test concat_batch [OF pos] mset_parallel_emit)
  have order: "test_completion choices = [] \<longrightarrow>
        concat (items (snd (load_datasets raw_train raw_test choices)))
          = map (\<lambda>(img, label). normalize_img img label) raw_test"
    by (simp add: load_datasets_test concat_batch [OF pos] parallel_emit_in_order)
  from test order train_items_mset [of raw_train raw_test choices] show ?thesis
    by (simp add: load_datasets_train load_datasets_test BATCH_SIZE_def)
qed

theorem pipeline_stages_witness:
  "test_completion \<lparr>shuffle_choices = [], map_workers = 2, train_completion = [],
                     test_completion = []\<rparr> = []
   \<and> concat (items (snd (load_datasets []
        [(two_pixel_image, 0), (two_pixel_image, 1)]
        \<lparr>shuffle_choices = [], map_workers = 2, train_completion = [],
          test_completion = []\<rparr>)))
      = [normalize_img two_pixel_image 0, normalize_img two_pixel_image 1]"
  using pipeline_stages [of "[]" "[(two_pixel_image, 0), (two_pixel_image, 1)]"
      "\<lparr>shuffle_choices = [], map_workers = 2, train_completion = [],
        test_completion = []\<rparr>"]
  by simp

text \<open>
  The prefetch stage of the train pipeline is not built with a buffer of one batch: the
  argument is \<^verbatim>\<open>tf.data.AUTOTUNE\<close>. And with two parallel calls of which the second
  completes first, two test samples come out of the test pipeline in the other order.
\<close>

theorem pipeline_prefetch_counterexample:
  "last (ops (fst (load_datasets [] []
       \<lparr>shuffle_choices = [], map_workers = 2, train_completion = [],
         test_completion = [1]\<rparr>))) = DsPrefetch AUTOTUNE
   \<and> DsPrefetch AUTOTUNE \<noteq> DsPrefetch 1
   \<and> ops (fst (load_datasets [] []
       \<lparr>shuffle_choices = [], map_workers = 2, train_completion = [],
         test_completion = [1]\<rparr>))
        \<noteq> [DsMap AUTOTUNE, DsCache, DsShuffle 1000, DsBatch 128, DsPrefetch 1]
   \<and> concat (items (snd (load_datasets []
        [(two_pixel_image, 0), (two_pixel_image, 1)]
        \<lparr>shuffle_choices = [], map_workers = 2, train_completion = [],
          test_completion = [1]\<rparr>)))
      = [normalize_img two_pixel_image 1, normalize_img two_pixel_image 0]
   \<and> [normalize_img two_pixel_image 1, normalize_img two_pixel_image 0]
      \<noteq> [normalize_img two_pixel_image 0, normalize_img two_pixel_image 1]"
proof -
  let ?c = "\<lparr>shuffle_choices = [], map_workers = 2, train_completion = [],
             test_completion = [1]\<rparr>"
  let ?a = "normalize_img two_pixel_image 0" and ?b = "normalize_img two_pixel_image 1"
  have stages: "last (ops (fst (load_datasets [] [] ?c))) = DsPrefetch AUTOTUNE
     \<and> DsPrefetch AUTOTUNE \<noteq> DsPrefetch 1
     \<and> ops (fst (load_datasets [] [] ?c))
        \<noteq> [DsMap AUTOTUNE, DsCache, DsShuffle 1000, DsBatch 128, DsPrefetch 1]"
    by (simp add: load_datasets_train AUTOTUNE_def)
  have "parallel_emit 2 [1] [?a, ?b] = ?b # parallel_emit 2 [] [?a]"
    by (subst parallel_emit.simps) simp
  then have emit: "parallel_emit 2 [1] [?a, ?b] = [?b, ?a]"
    by (simp add: parallel_emit_in_order)
  have pos: "0 < BATCH_SIZE" by (simp add: BATCH_SIZE_def)
  have swapped: "concat (items (snd (load_datasets []
        [(two_pixel_image, 0), (two_pixel_image, 1)] ?c))) = [?b, ?a]"
    using emit by (simp add: load_datasets_test concat_batch [OF pos])
  have "tf_one_hot 1 NUM_CLASSES \<noteq> tf_one_hot 0 NUM_CLASSES"
    by (simp add: tf_one_hot_def NUM_CLASSES_def upt_rec)
  then have "?b \<noteq> ?a"
    by (simp add: normalize_img_rank3 [OF two_pixel_facts(1,2)])
  then have differ: "[?b, ?a] \<noteq> [?a, ?b]"
    by simp
  from stages swapped differ show ?thesis by simp
qed

section \<open>The encoded label\<close>

text \<open>
  Claim C5. For every label in \<open>{0,...,9}\<close> the per-sample transform \<^verbatim>\<open>normalize_img\<close>
  (on any image it accepts) returns, as the encoded label, a vector of length exactly 10
  whose entry at the label's index is 1 and whose other entries are all 0, so exactly one
  entry is 1 and the vector sums to 1. The label is the same in exact and in binary32
  arithmetic.
\<close>

theorem one_hot_label_encoding:
  assumes "0 \<le> l" and "l < 10" and "3 \<le> length (shape img)"
  shows "\<exists>out lab. normalize_img img l = Inr (out, lab)
    \<and> (\<exists>out'. normalize_img_f32 pm pv img l = Inr (out', lab))
    \<and> length lab = 10
    \<and> lab ! nat l = 1
    \<and> (\<forall>i < 10. i \<noteq> nat l \<longrightarrow> lab ! i = 0)
    \<and> length (filter (\<lambda>v. v = 1) lab) = 1
    \<and> set lab \<subseteq> {0, 1}
    \<and> sum_list lab = 1"
proof -
  from assms(3) normalize_img_error_iff [of img l]
  obtain out lab where r: "normalize_img img l = Inr (out, lab)"
    by (cases "normalize_img img l") auto
  then have lab: "lab = tf_one_hot l NUM_CLASSES"
    by (auto simp: normalize_img_def Let_def split: sum.splits)
  have d: "l < int NUM_CLASSES" and n: "NUM_CLASSES = 10"
    using assms(2) by (simp_all add: NUM_CLASSES_def)
  note p = tf_one_hot_in_range [OF assms(1) d]
  have "length lab = 10" by (simp add: lab length_tf_one_hot n)
  moreover have "\<exists>out'. normalize_img_f32 pm pv img l = Inr (out', lab)"
    unfolding lab by (rule normalize_img_f32_label [OF assms(3)])
  ultimately show ?thesis using r p unfolding lab n by blast
qed

theorem one_hot_label_encoding_witness:
  "(0::int) \<le> 3 \<and> (3::int) < 10 \<and> 3 \<le> length (shape two_pixel_image)
   \<and> (\<exists>out. normalize_img two_pixel_image 3 = Inr (out, [0, 0, 0, 1, 0, 0, 0, 0, 0, 0]))
   \<and> sum_list [0, 0, 0, 1, 0, 0, 0, 0, 0, (0::real)] = 1"
proof -
  have h: "(0::int) \<le> 3" "(3::int) < 10" "3 \<le> length (shape two_pixel_image)"
    by (simp_all add: two_pixel_image_def)
  from one_hot_label_encoding [OF h]
  obtain out lab where r: "normalize_img two_pixel_image 3 = Inr (out, lab)"
    and s: "sum_list lab = 1" by blast
  from r have "lab = tf_one_hot 3 NUM_CLASSES"
    by (auto simp: normalize_img_def Let_def split: sum.splits)
  then have "lab = [0, 0, 0, 1, 0, 0, 0, 0, 0, 0]"
    by (simp add: tf_one_hot_def NUM_CLASSES_def upt_rec)
  with r s h show ?thesis by auto
qed

section \<open>Properties of training with early stopping\<close>

lemma run_epoch_first:
  "run_epoch te ev 0 (on_train_begin w0) =
     \<lparr>weights = weights_after te w0 0, stop_training = False, wait = 0,
      best = Some (ev (weights_after te w0 0)),
      best_weights = Some (weights_after te w0 0), best_epoch = 0, stopped_epoch = 0,
      val_loss_history = [ev (weights_after te w0 0)]\<rparr>"
  by (simp add: run_epoch_def on_epoch_end_def on_train_begin_def is_improvement_def Let_def)

lemma run_epoch_improve:
  assumes "best st = Some b" and "ev (te e (weights st)) < b" and "best_weights st = Some bw"
  shows "run_epoch te ev e st =
     st\<lparr>weights := te e (weights st),
        val_loss_history := val_loss_history st @ [ev (te e (weights st))],
        wait := 0, best := Some (ev (te e (weights st))),
        best_weights := Some (te e (weights st)), best_epoch := e\<rparr>"
  using assms
  by (simp add: run_epoch_def on_epoch_end_def is_improvement_def Let_def)

lemma run_epoch_wait:
  assumes "best st = Some b" and "\<not> ev (te e (weights st)) < b" and "best_weights st = Some bw"
    and "wait st + 1 < 5"
  shows "run_epoch te ev e st =
     st\<lparr>weights := te e (weights st),
        val_loss_history := val_loss_history st @ [ev (te e (weights st))],
        wait := wait st + 1\<rparr>"
  using assms
  by (simp add: run_epoch_def on_epoch_end_def is_improvement_def Let_def)

lemma run_epoch_stop:
  assumes "best st = Some b" and "\<not> ev (te e (weights st)) < b" and "best_weights st = Some bw"
    and "5 \<le> wait st + 1" and "0 < e"
  shows "run_epoch te ev e st =
     st\<lparr>weights := bw,
        val_loss_history := val_loss_history st @ [ev (te e (weights st))],
        wait := wait st + 1, stopped_epoch := e, stop_training := True\<rparr>"
  using assms
  by (simp add: run_epoch_def on_epoch_end_def is_improvement_def Let_def)

lemma fit_loop_done: "epochs \<le> e \<Longrightarrow> fit_loop te ev epochs e st = st"
  by (simp add: fit_loop.simps)

lemma fit_loop_step:
  "e < epochs \<Longrightarrow> fit_loop te ev epochs e st =
     (if stop_training (run_epoch te ev e st) then run_epoch te ev e st
      else fit_loop te ev epochs (Suc e) (run_epoch te ev e st))"
  by (subst fit_loop.simps) (simp add: Let_def)


lemma fit_invariant_first:
  "fit_invariant (weights_after te w0) (\<lambda>e. ev (weights_after te w0 e)) 0
     (run_epoch te ev 0 (on_train_begin w0))"
  by (simp add: run_epoch_first fit_invariant_def)

lemma fit_invariant_improve:
  assumes W_def: "W = weights_after te w0" and vl_def: "vl = (\<lambda>e. ev (W e))"
    and inv: "fit_invariant W vl e st" and less: "vl (Suc e) < vl (best_epoch st)"
  shows "fit_invariant W vl (Suc e) (run_epoch te ev (Suc e) st)"
    and "best_epoch (run_epoch te ev (Suc e) st) = Suc e"
proof -
  from inv have w: "weights st = W e" and b: "best st = Some (vl (best_epoch st))"
    and bw: "best_weights st = Some (W (best_epoch st))"
    and h: "val_loss_history st = map vl [0..<Suc e]"
    and mn: "\<forall>i \<le> e. vl (best_epoch st) \<le> vl i" and ns: "\<not> stop_training st"
    by (simp_all add: fit_invariant_def)
  have W: "te (Suc e) (weights st) = W (Suc e)" and c: "ev (W (Suc e)) = vl (Suc e)"
    by (simp_all add: w W_def vl_def)
  from less have "ev (te (Suc e) (weights st)) < vl (best_epoch st)" by (simp add: W c)
  note step = run_epoch_improve [where te = te and ev = ev and e = "Suc e", OF b this bw]
  have "\<forall>i \<le> Suc e. vl (Suc e) \<le> vl i"
  proof (intro allI impI)
    fix i assume "i \<le> Suc e"
    then consider "i = Suc e" | "i \<le> e" by linarith
    then show "vl (Suc e) \<le> vl i"
    proof cases
      case 1 then show ?thesis by simp
    next
      case 2 with mn less show ?thesis by force
    qed
  qed
  then show "fit_invariant W vl (Suc e) (run_epoch te ev (Suc e) st)"
    using ns h by (simp add: step fit_invariant_def c W)
  show "best_epoch (run_epoch te ev (Suc e) st) = Suc e" by (simp add: step)
qed

lemma no_improvement_minimum:
  assumes "\<forall>i \<le> e. vl b \<le> (vl i :: real)" and "\<not> vl (Suc e) < vl b"
  shows "\<forall>i \<le> Suc e. vl b \<le> vl i"
proof (intro allI impI)
  fix i assume "i \<le> Suc e"
  then consider "i = Suc e" | "i \<le> e" by linarith
  then show "vl b \<le> vl i"
  proof cases
    case 1 with assms(2) show ?thesis by simp
  next
    case 2 with assms(1) show ?thesis by simp
  qed
qed

lemma fit_invariant_wait:
  assumes W_def: "W = weights_after te w0" and vl_def: "vl = (\<lambda>e. ev (W e))"
    and inv: "fit_invariant W vl e st" and no: "\<not> vl (Suc e) < vl (best_epoch st)"
    and few: "e - best_epoch st < 4"
  shows "fit_invariant W vl (Suc e) (run_epoch te ev (Suc e) st)"
    and "best_epoch (run_epoch te ev (Suc e) st) = best_epoch st"
proof -
  from inv have w: "weights st = W e" and b: "best st = Some (vl (best_epoch st))"
    and bw: "best_weights st = Some (W (best_epoch st))"
    and h: "val_loss_history st = map vl [0..<Suc e]"
    and be: "best_epoch st \<le> e" and wt: "wait st = e - best_epoch st"
    and mn: "\<forall>i \<le> e. vl (best_epoch st) \<le> vl i" and ns: "\<not> stop_training st"
    by (simp_all add: fit_invariant_def)
  have W: "te (Suc e) (weights st) = W (Suc e)" and c: "ev (W (Suc e)) = vl (Suc e)"
    by (simp_all add: w W_def vl_def)
  from no have no': "\<not> ev (te (Suc e) (weights st)) < vl (best_epoch st)" by (simp add: W c)
  from few wt have "wait st + 1 < 5" by simp
  note step = run_epoch_wait [where te = te and ev = ev and e = "Suc e", OF b no' bw this]
  from be wt have "Suc (wait st) = Suc e - best_epoch st" by simp
  then show "fit_invariant W vl (Suc e) (run_epoch te ev (Suc e) st)"
    using ns h b bw be few wt no_improvement_minimum [OF mn no]
    by (simp add: step fit_invariant_def c W)
  show "best_epoch (run_epoch te ev (Suc e) st) = best_epoch st" by (simp add: step)
qed

lemma fit_invariant_stop:
  assumes W_def: "W = weights_after te w0" and vl_def: "vl = (\<lambda>e. ev (W e))"
    and inv: "fit_invariant W vl e st" and no: "\<not> vl (Suc e) < vl (best_epoch st)"
    and many: "\<not> e - best_epoch st < 4"
  shows "stop_training (run_epoch te ev (Suc e) st)"
    and "weights (run_epoch te ev (Suc e) st) = W (best_epoch st)"
    and "best_epoch (run_epoch te ev (Suc e) st) = best_epoch st"
    and "stopped_epoch (run_epoch te ev (Suc e) st) = Suc e"
    and "val_loss_history (run_epoch te ev (Suc e) st) = map vl [0..<Suc (Suc e)]"
    and "Suc e = best_epoch st + 5"
    and "\<forall>i < Suc (Suc e). vl (best_epoch st) \<le> vl i"
proof -
  from inv have w: "weights st = W e" and b: "best st = Some (vl (best_epoch st))"
    and bw: "best_weights st = Some (W (best_epoch st))"
    and h: "val_loss_history st = map vl [0..<Suc e]"
    and be: "best_epoch st \<le> e" and wt: "wait st = e - best_epoch st" and w5: "wait st < 5"
    and mn: "\<forall>i \<le> e. vl (best_epoch st) \<le> vl i"
    by (simp_all add: fit_invariant_def)
  have W: "te (Suc e) (weights st) = W (Suc e)" and c: "ev (W (Suc e)) = vl (Suc e)"
    by (simp_all add: w W_def vl_def)
  from no have no': "\<not> ev (te (Suc e) (weights st)) < vl (best_epoch st)" by (simp add: W c)
  from many wt have five: "5 \<le> wait st + 1" by simp
  note step = run_epoch_stop [where te = te and ev = ev and e = "Suc e", OF b no' bw five]
  show "stop_training (run_epoch te ev (Suc e) st)"
    and "weights (run_epoch te ev (Suc e) st) = W (best_epoch st)"
    and "best_epoch (run_epoch te ev (Suc e) st) = best_epoch st"
    and "stopped_epoch (run_epoch te ev (Suc e) st) = Suc e"
    and "val_loss_history (run_epoch te ev (Suc e) st) = map vl [0..<Suc (Suc e)]"
    by (simp_all add: step h W c)
  from five w5 wt be show "Suc e = best_epoch st + 5" by simp
  from no_improvement_minimum [OF mn no] show "\<forall>i < Suc (Suc e). vl (best_epoch st) \<le> vl i"
    by (simp add: less_Suc_eq_le)
qed

lemma fit_loop_result:
  assumes W_def: "W = weights_after te w0" and vl_def: "vl = (\<lambda>e. ev (W e))"
    and "fit_invariant W vl e st" and "Suc e \<le> epochs"
  shows "fit_result W vl epochs (fit_loop te ev epochs (Suc e) st)"
  using assms(3,4)
proof (induction "epochs - Suc e" arbitrary: e st)
  case 0
  then have "fit_loop te ev epochs (Suc e) st = st" by (simp add: fit_loop_done)
  with 0 show ?case by (simp add: fit_result_def fit_invariant_def)
next
  case (Suc n)
  then have lt: "Suc e < epochs" by simp
  let ?r = "run_epoch te ev (Suc e) st"
  note inv = Suc.prems(1)
  show ?case
  proof (cases "vl (Suc e) < vl (best_epoch st)")
    case True
    note i = fit_invariant_improve [OF W_def vl_def inv True]
    from i(1) have "\<not> stop_training ?r" by (simp add: fit_invariant_def)
    with lt have "fit_loop te ev epochs (Suc e) st = fit_loop te ev epochs (Suc (Suc e)) ?r"
      by (simp add: fit_loop_step)
    moreover from Suc.hyps(2) lt have "n = epochs - Suc (Suc e)" by simp
    ultimately show ?thesis using Suc.hyps(1) [OF _ i(1)] lt by simp
  next
    case False
    show ?thesis
    proof (cases "e - best_epoch st < 4")
      case True
      note i = fit_invariant_wait [OF W_def vl_def inv False True]
      from i(1) have "\<not> stop_training ?r" by (simp add: fit_invariant_def)
      with lt have "fit_loop te ev epochs (Suc e) st = fit_loop te ev epochs (Suc (Suc e)) ?r"
        by (simp add: fit_loop_step)
      moreover from Suc.hyps(2) lt have "n = epochs - Suc (Suc e)" by simp
      ultimately show ?thesis using Suc.hyps(1) [OF _ i(1)] lt by simp
    next
      case many: False
      note s = fit_invariant_stop [OF W_def vl_def inv False many]
      from s(1) lt have "fit_loop te ev epochs (Suc e) st = ?r" by (simp add: fit_loop_step)
      moreover define r where "r = ?r"
      moreover have "fit_result W vl epochs r"
        using s [folded r_def] lt by (simp add: fit_result_def)
      ultimately show ?thesis by simp
    qed
  qed
qed

lemma fit_first_epoch:
  "fit te ev w0 = fit_loop te ev MAX_EPOCHS (Suc 0) (run_epoch te ev 0 (on_train_begin w0))"
proof -
  have "\<not> stop_training (run_epoch te ev 0 (on_train_begin w0))"
    by (simp add: run_epoch_first)
  then show ?thesis by (simp add: fit_def fit_loop_step MAX_EPOCHS_def)
qed

lemma fit_satisfies_result:
  "fit_result (weights_after te w0) (\<lambda>e. ev (weights_after te w0 e)) MAX_EPOCHS (fit te ev w0)"
  unfolding fit_first_epoch
  by (rule fit_loop_result [OF refl refl fit_invariant_first]) (simp add: MAX_EPOCHS_def)


lemma improving_then_plateau_path:
  assumes W_def: "W = weights_after te w0" and vl_def: "vl = (\<lambda>e. ev (W e))"
    and K: "1 \<le> K"
    and imp: "\<forall>e. Suc e < K \<longrightarrow> vl (Suc e) < vl e"
    and plat: "\<forall>e. K \<le> e \<and> e < K + 5 \<longrightarrow> \<not> vl e < vl (K - 1)"
    and e: "e \<le> K + 3" and epochs: "K + 5 \<le> epochs"
  shows "\<exists>st. fit_loop te ev epochs (Suc 0) (run_epoch te ev 0 (on_train_begin w0))
                = fit_loop te ev epochs (Suc e) st
            \<and> fit_invariant W vl e st \<and> best_epoch st = min e (K - 1)"
  using e
proof (induction e)
  case 0
  have "fit_invariant W vl 0 (run_epoch te ev 0 (on_train_begin w0))"
    unfolding vl_def W_def by (rule fit_invariant_first)
  moreover have "best_epoch (run_epoch te ev 0 (on_train_begin w0)) = min 0 (K - 1)"
    by (simp add: run_epoch_first)
  ultimately show ?case by blast
next
  case (Suc e)
  then obtain st where
    path: "fit_loop te ev epochs (Suc 0) (run_epoch te ev 0 (on_train_begin w0))
             = fit_loop te ev epochs (Suc e) st"
    and inv: "fit_invariant W vl e st" and be: "best_epoch st = min e (K - 1)"
    by auto
  let ?r = "run_epoch te ev (Suc e) st"
  from Suc.prems epochs have lt: "Suc e < epochs" by simp
  have next_inv: "fit_invariant W vl (Suc e) ?r \<and> best_epoch ?r = min (Suc e) (K - 1)"
  proof (cases "Suc e < K")
    case True
    then have "best_epoch st = e" using be by simp
    moreover from imp True have "vl (Suc e) < vl e" by simp
    ultimately have less: "vl (Suc e) < vl (best_epoch st)" by simp
    from fit_invariant_improve [OF W_def vl_def inv less] True show ?thesis by simp
  next
    case False
    then have b: "best_epoch st = K - 1" using be K by simp
    from False Suc.prems have "K \<le> Suc e \<and> Suc e < K + 5" by simp
    with plat have "\<not> vl (Suc e) < vl (K - 1)" by blast
    then have no: "\<not> vl (Suc e) < vl (best_epoch st)" by (simp add: b)
    from Suc.prems K have few: "e - best_epoch st < 4" by (simp add: b)
    from fit_invariant_wait [OF W_def vl_def inv no few] False K b show ?thesis by simp
  qed
  then have "\<not> stop_training ?r" by (simp add: fit_invariant_def)
  with lt have "fit_loop te ev epochs (Suc e) st = fit_loop te ev epochs (Suc (Suc e)) ?r"
    by (simp add: fit_loop_step)
  with path next_inv show ?case by auto
qed

lemma improving_then_plateau_stops:
  assumes W_def: "W = weights_after te w0" and vl_def: "vl = (\<lambda>e. ev (W e))"
    and K: "1 \<le> K" and epochs: "K + 5 \<le> MAX_EPOCHS"
    and imp: "\<forall>e. Suc e < K \<longrightarrow> vl (Suc e) < vl e"
    and plat: "\<forall>e. K \<le> e \<and> e < K + 5 \<longrightarrow> \<not> vl e < vl (K - 1)"
  shows "stop_training (fit te ev w0)"
    and "length (val_loss_history (fit te ev w0)) = K + 5"
    and "stopped_epoch (fit te ev w0) = K + 4"
    and "best_epoch (fit te ev w0) = K - 1"
    and "weights (fit te ev w0) = W (K - 1)"
proof -
  from improving_then_plateau_path [OF W_def vl_def K imp plat _ epochs, of "K + 3"]
  obtain st where path: "fit te ev w0 = fit_loop te ev MAX_EPOCHS (Suc (K + 3)) st"
    and inv: "fit_invariant W vl (K + 3) st" and be: "best_epoch st = K - 1"
    using K by (auto simp: fit_first_epoch)
  let ?r = "run_epoch te ev (Suc (K + 3)) st"
  from plat have "\<not> vl (Suc (K + 3)) < vl (K - 1)" by simp
  then have no: "\<not> vl (Suc (K + 3)) < vl (best_epoch st)" by (simp add: be)
  from K have many: "\<not> K + 3 - best_epoch st < 4" by (simp add: be)
  note s = fit_invariant_stop [OF W_def vl_def inv no many]
  from epochs have "Suc (K + 3) < MAX_EPOCHS" by simp
  with s(1) path have r: "fit te ev w0 = ?r" by (simp add: fit_loop_step)
  show "stop_training (fit te ev w0)" unfolding r by (rule s(1))
  show "length (val_loss_history (fit te ev w0)) = K + 5" unfolding r using s(5) by simp
  show "stopped_epoch (fit te ev w0) = K + 4" unfolding r using s(4) by simp
  show "best_epoch (fit te ev w0) = K - 1" unfolding r using s(3) be by simp
  show "weights (fit te ev w0) = W (K - 1)" unfolding r using s(2) be by simp
qed


lemma improves_first: "improves vl 0"
  by (simp add: improves_def)

lemma stalled_late: "stalled vl s \<Longrightarrow> 5 \<le> s"
proof (rule ccontr)
  assume s: "stalled vl s" and "\<not> 5 \<le> s"
  then have "s - 4 \<le> 0 \<and> 0 \<le> s" by simp
  with s have "\<not> improves vl 0" unfolding stalled_def by blast
  then show False by (simp add: improves_first)
qed

lemma improves_iff_below_best:
  assumes "b \<le> e" and "\<forall>i \<le> e. vl b \<le> vl i"
  shows "improves vl (Suc e) \<longleftrightarrow> vl (Suc e) < vl b"
proof
  assume "improves vl (Suc e)"
  with assms(1) show "vl (Suc e) < vl b" by (simp add: improves_def)
next
  assume less: "vl (Suc e) < vl b"
  show "improves vl (Suc e)"
    unfolding improves_def
  proof (intro allI impI)
    fix j assume "j < Suc e"
    then have "vl b \<le> vl j" using assms(2) by simp
    with less show "vl (Suc e) < vl j" by simp
  qed
qed

lemma unstalled_path:
  assumes W_def: "W = weights_after te w0" and vl_def: "vl = (\<lambda>e. ev (W e))"
    and free: "\<forall>s \<le> e. \<not> stalled vl s" and epochs: "Suc e \<le> epochs"
  shows "\<exists>st. fit_loop te ev epochs (Suc 0) (run_epoch te ev 0 (on_train_begin w0))
                = fit_loop te ev epochs (Suc e) st
            \<and> fit_invariant W vl e st \<and> improves vl (best_epoch st)
            \<and> (\<forall>i. best_epoch st < i \<and> i \<le> e \<longrightarrow> \<not> improves vl i)"
  using free epochs
proof (induction e)
  case 0
  have "fit_invariant W vl 0 (run_epoch te ev 0 (on_train_begin w0))"
    unfolding vl_def W_def by (rule fit_invariant_first)
  moreover have "best_epoch (run_epoch te ev 0 (on_train_begin w0)) = 0"
    by (simp add: run_epoch_first)
  ultimately show ?case using improves_first [of vl] by auto
next
  case (Suc e)
  then obtain st where
    path: "fit_loop te ev epochs (Suc 0) (run_epoch te ev 0 (on_train_begin w0))
             = fit_loop te ev epochs (Suc e) st"
    and inv: "fit_invariant W vl e st" and imp: "improves vl (best_epoch st)"
    and dry: "\<forall>i. best_epoch st < i \<and> i \<le> e \<longrightarrow> \<not> improves vl i"
    by auto
  let ?r = "run_epoch te ev (Suc e) st"
  from Suc.prems have lt: "Suc e < epochs" by simp
  from inv have be: "best_epoch st \<le> e" and mn: "\<forall>i \<le> e. vl (best_epoch st) \<le> vl i"
    by (simp_all add: fit_invariant_def)
  note iff = improves_iff_below_best [OF be mn]
  have next_inv: "fit_invariant W vl (Suc e) ?r \<and> improves vl (best_epoch ?r)
      \<and> (\<forall>i. best_epoch ?r < i \<and> i \<le> Suc e \<longrightarrow> \<not> improves vl i)"
  proof (cases "improves vl (Suc e)")
    case True
    with iff have less: "vl (Suc e) < vl (best_epoch st)" by simp
    from fit_invariant_improve [OF W_def vl_def inv less] True show ?thesis by auto
  next
    case False
    with iff have no: "\<not> vl (Suc e) < vl (best_epoch st)" by simp
    have dry': "\<forall>i. best_epoch st < i \<and> i \<le> Suc e \<longrightarrow> \<not> improves vl i"
    proof (intro allI impI)
      fix i assume i: "best_epoch st < i \<and> i \<le> Suc e"
      then consider "i = Suc e" | "i \<le> e" by linarith
      then show "\<not> improves vl i"
      proof cases
        case 1 with False show ?thesis by simp
      next
        case 2 with i dry show ?thesis by simp
      qed
    qed
    have few: "e - best_epoch st < 4"
    proof (rule ccontr)
      assume "\<not> e - best_epoch st < 4"
      then have "\<forall>i. Suc e - 4 \<le> i \<and> i \<le> Suc e \<longrightarrow> best_epoch st < i \<and> i \<le> Suc e"
        using be by auto
      with dry' have "stalled vl (Suc e)" unfolding stalled_def by blast
      with Suc.prems(1) show False by simp
    qed
    from fit_invariant_wait [OF W_def vl_def inv no few] imp dry' show ?thesis by auto
  qed
  then have "\<not> stop_training ?r" by (simp add: fit_invariant_def)
  with lt have "fit_loop te ev epochs (Suc e) st = fit_loop te ev epochs (Suc (Suc e)) ?r"
    by (simp add: fit_loop_step)
  with path next_inv show ?case by auto
qed

lemma never_stalled_runs_all:
  assumes W_def: "W = weights_after te w0" and vl_def: "vl = (\<lambda>e. ev (W e))"
    and free: "\<forall>s < MAX_EPOCHS. \<not> stalled vl s"
  shows "\<not> stop_training (fit te ev w0)"
    and "length (val_loss_history (fit te ev w0)) = MAX_EPOCHS"
proof -
  have "\<forall>s \<le> 49. \<not> stalled vl s" using free by (simp add: MAX_EPOCHS_def)
  from unstalled_path [OF W_def vl_def this, of MAX_EPOCHS]
  obtain st where path: "fit te ev w0 = fit_loop te ev MAX_EPOCHS (Suc 49) st"
    and inv: "fit_invariant W vl 49 st"
    by (auto simp: fit_first_epoch MAX_EPOCHS_def)
  from path have r: "fit te ev w0 = st" by (simp add: fit_loop_done MAX_EPOCHS_def)
  from inv show "\<not> stop_training (fit te ev w0)" unfolding r by (simp add: fit_invariant_def)
  from inv show "length (val_loss_history (fit te ev w0)) = MAX_EPOCHS"
    unfolding r by (simp add: fit_invariant_def MAX_EPOCHS_def)
qed

lemma first_stall_stops:
  assumes W_def: "W = weights_after te w0" and vl_def: "vl = (\<lambda>e. ev (W e))"
    and s: "s < MAX_EPOCHS" and stall: "stalled vl s" and first: "\<forall>s' < s. \<not> stalled vl s'"
  shows "stop_training (fit te ev w0)"
    and "stopped_epoch (fit te ev w0) = s"
    and "length (val_loss_history (fit te ev w0)) = s + 1"
    and "best_epoch (fit te ev w0) = s - 5"
    and "weights (fit te ev w0) = W (s - 5)"
    and "improves vl (s - 5)"
proof -
  from stalled_late [OF stall] obtain e where e: "s = Suc e" and e4: "4 \<le> e"
    by (cases s) auto
  from first have "\<forall>s' \<le> e. \<not> stalled vl s'" by (simp add: e less_Suc_eq_le)
  from unstalled_path [OF W_def vl_def this, of MAX_EPOCHS] s
  obtain st where path: "fit te ev w0 = fit_loop te ev MAX_EPOCHS (Suc e) st"
    and inv: "fit_invariant W vl e st" and imp: "improves vl (best_epoch st)"
    by (auto simp: fit_first_epoch e)
  from inv have be: "best_epoch st \<le> e" and mn: "\<forall>i \<le> e. vl (best_epoch st) \<le> vl i"
    by (simp_all add: fit_invariant_def)
  from stall have "\<not> improves vl (Suc e)" unfolding stalled_def e by simp
  with improves_iff_below_best [OF be mn] have no: "\<not> vl (Suc e) < vl (best_epoch st)" by simp
  have many: "\<not> e - best_epoch st < 4"
  proof
    assume "e - best_epoch st < 4"
    with be have "Suc e - 4 \<le> best_epoch st \<and> best_epoch st \<le> Suc e" by simp
    with stall have "\<not> improves vl (best_epoch st)" unfolding stalled_def e by blast
    with imp show False by simp
  qed
  note st = fit_invariant_stop [OF W_def vl_def inv no many]
  from s have "Suc e < MAX_EPOCHS" by (simp add: e)
  with st(1) path have r: "fit te ev w0 = run_epoch te ev (Suc e) st" by (simp add: fit_loop_step)
  from st(6) have b: "best_epoch st = s - 5" by (simp add: e)
  show "stop_training (fit te ev w0)" unfolding r by (rule st(1))
  show "stopped_epoch (fit te ev w0) = s" unfolding r using st(4) by (simp add: e)
  show "length (val_loss_history (fit te ev w0)) = s + 1" unfolding r using st(5) by (simp add: e)
  show "best_epoch (fit te ev w0) = s - 5" unfolding r using st(3) b by simp
  show "weights (fit te ev w0) = W (s - 5)" unfolding r using st(2) b by simp
  from imp b show "improves vl (s - 5)" by simp
qed


text \<open>
  Claim C4. \<^verbatim>\<open>model.fit\<close> runs at most 50 epochs and records the validation loss of each.
  As soon as the validation loss has failed to improve for 5 consecutive epochs (the first
  epoch \<open>s\<close> at which training has stalled), training stops, at that epoch, and the model's
  weights are put back to those of the best epoch, which is the epoch just before those
  five; if that never happens within the 50 epochs, all 50 run and training is not
  stopped. Conversely a stop comes exactly 5 epochs after the best epoch, whose loss no
  recorded epoch is below, with that epoch's weights. In particular, when the
  validation loss improves during the first \<open>K\<close> epochs (\<open>K \<ge> 1\<close>, each epoch below the one
  before) and then does not improve on epoch \<open>K\<close> for 5 epochs (\<open>K + 5 \<le> 50\<close>), training
  stops at epoch \<open>K + 5\<close> (\<open>K + 4\<close>, counting from 0 as the callback does) with the weights
  of epoch \<open>K\<close>.
\<close>

theorem early_stopping_fit:
  fixes train_epoch :: "nat \<Rightarrow> 'w \<Rightarrow> 'w" and evaluate :: "'w \<Rightarrow> real" and w0 :: 'w
  defines "W \<equiv> weights_after train_epoch w0"
    and "vl \<equiv> \<lambda>e. evaluate (weights_after train_epoch w0 e)"
    and "r \<equiv> fit train_epoch evaluate w0"
  shows "length (val_loss_history r) \<le> 50
    \<and> val_loss_history r = map vl [0..<length (val_loss_history r)]
    \<and> (\<forall>s < 50. stalled vl s \<and> (\<forall>s' < s. \<not> stalled vl s')
          \<longrightarrow> stop_training r
            \<and> stopped_epoch r = s
            \<and> length (val_loss_history r) = s + 1
            \<and> best_epoch r = s - 5
            \<and> improves vl (s - 5)
            \<and> weights r = W (s - 5))
    \<and> ((\<forall>s < 50. \<not> stalled vl s)
          \<longrightarrow> \<not> stop_training r \<and> length (val_loss_history r) = 50)
    \<and> (stop_training r \<longrightarrow>
          weights r = W (best_epoch r)
        \<and> stopped_epoch r = best_epoch r + 5
        \<and> length (val_loss_history r) = stopped_epoch r + 1
        \<and> (\<forall>i < length (val_loss_history r). vl (best_epoch r) \<le> vl i))
    \<and> (\<not> stop_training r \<longrightarrow> length (val_loss_history r) = 50)
    \<and> (\<forall>K. 1 \<le> K \<and> K + 5 \<le> 50
            \<and> (\<forall>e. Suc e < K \<longrightarrow> vl (Suc e) < vl e)
            \<and> (\<forall>e. K \<le> e \<and> e < K + 5 \<longrightarrow> \<not> vl e < vl (K - 1))
          \<longrightarrow> stop_training r
            \<and> length (val_loss_history r) = K + 5
            \<and> stopped_epoch r = K + 4
            \<and> best_epoch r = K - 1
            \<and> weights r = W (K - 1))"
proof -
  have vl: "vl = (\<lambda>e. evaluate (W e))" by (simp add: vl_def W_def)
  have W: "W = weights_after train_epoch w0" by (simp add: W_def)
  have "fit_result W vl MAX_EPOCHS r"
    unfolding W_def vl_def r_def by (rule fit_satisfies_result)
  then have general: "length (val_loss_history r) \<le> 50
    \<and> val_loss_history r = map vl [0..<length (val_loss_history r)]
    \<and> (stop_training r \<longrightarrow>
          weights r = W (best_epoch r)
        \<and> stopped_epoch r = best_epoch r + 5
        \<and> length (val_loss_history r) = stopped_epoch r + 1
        \<and> (\<forall>i < length (val_loss_history r). vl (best_epoch r) \<le> vl i))
    \<and> (\<not> stop_training r \<longrightarrow> length (val_loss_history r) = 50)"
    unfolding fit_result_def MAX_EPOCHS_def by simp
  have stall: "stop_training r
            \<and> stopped_epoch r = s
            \<and> length (val_loss_history r) = s + 1
            \<and> best_epoch r = s - 5
            \<and> improves vl (s - 5)
            \<and> weights r = W (s - 5)"
    if "s < 50" and "stalled vl s \<and> (\<forall>s' < s. \<not> stalled vl s')" for s
  proof -
    from that have s: "s < MAX_EPOCHS" and st: "stalled vl s" and f: "\<forall>s' < s. \<not> stalled vl s'"
      by (simp_all add: MAX_EPOCHS_def)
    from first_stall_stops [OF W vl s st f] show ?thesis by (simp add: r_def)
  qed
  have free: "\<not> stop_training r \<and> length (val_loss_history r) = 50"
    if "\<forall>s < 50. \<not> stalled vl s"
  proof -
    from that have "\<forall>s < MAX_EPOCHS. \<not> stalled vl s" by (simp add: MAX_EPOCHS_def)
    from never_stalled_runs_all [OF W vl this] show ?thesis by (simp add: r_def MAX_EPOCHS_def)
  qed
  have particular: "stop_training r
            \<and> length (val_loss_history r) = K + 5
            \<and> stopped_epoch r = K + 4
            \<and> best_epoch r = K - 1
            \<and> weights r = W (K - 1)"
    if "1 \<le> K \<and> K + 5 \<le> 50
            \<and> (\<forall>e. Suc e < K \<longrightarrow> vl (Suc e) < vl e)
            \<and> (\<forall>e. K \<le> e \<and> e < K + 5 \<longrightarrow> \<not> vl e < vl (K - 1))" for K
  proof -
    from that have K: "1 \<le> K" and ep: "K + 5 \<le> MAX_EPOCHS"
      and imp: "\<forall>e. Suc e < K \<longrightarrow> vl (Suc e) < vl e"
      and plat: "\<forall>e. K \<le> e \<and> e < K + 5 \<longrightarrow> \<not> vl e < vl (K - 1)"
      by (simp_all add: MAX_EPOCHS_def)
    from improving_then_plateau_stops [OF W vl K ep imp plat] show ?thesis
      by (simp add: r_def)
  qed
  from general stall free particular show ?thesis by blast
qed

lemma weights_after_count: "weights_after (\<lambda>e w. Suc w) 0 e = Suc e"
  by (induction e) simp_all

lemma bumpy_stalled:
  defines "vl \<equiv> \<lambda>e. bumpy_loss (weights_after (\<lambda>e w. Suc w) 0 e)"
  shows "stalled vl 7" and "\<forall>s' < 7. \<not> stalled vl s'"
proof -
  have vl: "vl e = bumpy_loss (Suc e)" for e by (simp add: vl_def weights_after_count)
  have two: "improves vl 2"
    unfolding improves_def by (auto simp: vl bumpy_loss_def less_Suc_eq numeral_2_eq_2)
  show "stalled vl 7"
    unfolding stalled_def
  proof (intro allI impI)
    fix i :: nat assume i: "7 - 4 \<le> i \<and> i \<le> 7"
    then have "\<not> vl i < vl 2" by (simp add: vl bumpy_loss_def)
    moreover from i have "(2::nat) < i" by simp
    ultimately show "\<not> improves vl i" unfolding improves_def by blast
  qed
  show "\<forall>s' < 7. \<not> stalled vl s'"
  proof (intro allI impI)
    fix s' :: nat assume s': "s' < 7"
    show "\<not> stalled vl s'"
    proof
      assume st: "stalled vl s'"
      from stalled_late [OF st] s' have "s' - 4 \<le> 2 \<and> 2 \<le> s'" by simp
      with st have "\<not> improves vl 2" unfolding stalled_def by blast
      with two show False by simp
    qed
  qed
qed

theorem early_stopping_fit_witness:
  "stop_training (fit (\<lambda>e w. Suc w) bumpy_loss 0)
   \<and> stopped_epoch (fit (\<lambda>e w. Suc w) bumpy_loss 0) = 7
   \<and> length (val_loss_history (fit (\<lambda>e w. Suc w) bumpy_loss 0)) = 8
   \<and> best_epoch (fit (\<lambda>e w. Suc w) bumpy_loss 0) = 2
   \<and> weights (fit (\<lambda>e w. Suc w) bumpy_loss 0) = 3
   \<and> val_loss_history (fit (\<lambda>e w. Suc w) bumpy_loss 0) = [10, 11, 9, 12, 12, 12, 12, 12]"
proof -
  let ?te = "\<lambda>(e::nat) w. Suc w"
  let ?r = "fit ?te bumpy_loss 0"
  let ?vl = "\<lambda>e. bumpy_loss (weights_after ?te 0 e)"
  note t = early_stopping_fit [where train_epoch = ?te and evaluate = bumpy_loss and ?w0.0 = 0]
  from t have "\<forall>s < 50. stalled ?vl s \<and> (\<forall>s' < s. \<not> stalled ?vl s')
          \<longrightarrow> stop_training ?r
            \<and> stopped_epoch ?r = s
            \<and> length (val_loss_history ?r) = s + 1
            \<and> best_epoch ?r = s - 5
            \<and> improves ?vl (s - 5)
            \<and> weights ?r = weights_after ?te 0 (s - 5)"
    by blast
  from this [rule_format, of 7] bumpy_stalled
  have s: "stop_training ?r \<and> stopped_epoch ?r = 7 \<and> length (val_loss_history ?r) = 8
      \<and> best_epoch ?r = 2 \<and> weights ?r = 3"
    by (simp add: weights_after_count)
  from t have "val_loss_history ?r = map ?vl [0..<length (val_loss_history ?r)]" by blast
  with s have "val_loss_history ?r = map ?vl [0..<8]" by simp
  then have "val_loss_history ?r = [10, 11, 9, 12, 12, 12, 12, 12]"
    by (simp add: weights_after_count bumpy_loss_def upt_rec)
  with s show ?thesis by simp
qed

end
